theory Spec2Isabelle
  imports Main
begin

section \<open>Python strings\<close>

text \<open>
  A Python \<open>str\<close> is a sequence of code points. The model keeps the code points below
  256 (Latin-1, which is also how the HTTP client decodes header values), one \<open>char\<close>
  each; the classification of those 256 characters (whitespace, word characters, lower
  case) is the one of Python's Unicode tables. A \<open>bytes\<close> object is a \<open>char list\<close>
  as well.
\<close>

definition startswith :: "string \<Rightarrow> string \<Rightarrow> bool" where
  "startswith s p = (take (length p) s = p)"

definition endswith :: "string \<Rightarrow> string \<Rightarrow> bool" where
  "endswith s p = (length p \<le> length s \<and> drop (length s - length p) s = p)"

text \<open>\<open>contains_str sub s\<close> is Python's \<open>sub in s\<close>.\<close>

fun contains_str :: "string \<Rightarrow> string \<Rightarrow> bool" where
  "contains_str sub [] = (sub = [])"
| "contains_str sub (c # cs) = (startswith (c # cs) sub \<or> contains_str sub cs)"

text \<open>\<open>str.lower()\<close> on Latin-1: A-Z and the accented capitals move by 32.\<close>

definition lower_char :: "char \<Rightarrow> char" where
  "lower_char c =
     (let n = (of_char c :: nat)
      in if (65 \<le> n \<and> n \<le> 90) \<or> (192 \<le> n \<and> n \<le> 222 \<and> n \<noteq> 215)
         then char_of (n + 32) else c)"

definition lower :: "string \<Rightarrow> string" where
  "lower s = map lower_char s"

text \<open>\<open>str.isspace()\<close>: the characters that \<open>str.strip()\<close> removes.\<close>

definition isspace :: "char \<Rightarrow> bool" where
  "isspace c =
     (let n = (of_char c :: nat)
      in (9 \<le> n \<and> n \<le> 13) \<or> (28 \<le> n \<and> n \<le> 32) \<or> n = 133 \<or> n = 160)"

definition lstrip :: "string \<Rightarrow> string" where
  "lstrip s = dropWhile isspace s"

definition rstrip :: "string \<Rightarrow> string" where
  "rstrip s = rev (dropWhile isspace (rev s))"

definition strip :: "string \<Rightarrow> string" where
  "strip s = rstrip (lstrip s)"

text \<open>
  \<open>split_from sep acc s\<close> scans \<open>s\<close> from the left for the non-overlapping occurrences
  of \<open>sep\<close>; \<open>acc\<close> holds the current piece, reversed. \<open>str.split(sep)\<close> raises
  ValueError on an empty separator; every call of the program passes a literal.
\<close>

fun split_from :: "string \<Rightarrow> string \<Rightarrow> string \<Rightarrow> string list" where
  "split_from sep acc [] = [rev acc]"
| "split_from sep acc (c # cs) =
     (if startswith (c # cs) sep
      then rev acc # split_from sep [] (drop (length sep - 1) cs)
      else split_from sep (c # acc) cs)"

definition split :: "string \<Rightarrow> string \<Rightarrow> string list" where
  "split s sep = split_from sep [] s"

text \<open>\<open>s.rsplit(sep, 1)[0]\<close>: what precedes the last occurrence of \<open>sep\<close>, or all of \<open>s\<close>.\<close>

fun find_str :: "string \<Rightarrow> string \<Rightarrow> nat option" where
  "find_str sub [] = (if sub = [] then Some 0 else None)"
| "find_str sub (c # cs) =
     (if startswith (c # cs) sub then Some 0 else map_option Suc (find_str sub cs))"

definition rsplit1_head :: "string \<Rightarrow> string \<Rightarrow> string" where
  "rsplit1_head s sep =
     (case find_str (rev sep) (rev s) of
        None \<Rightarrow> s
      | Some i \<Rightarrow> take (length s - i - length sep) s)"

section \<open>Validation of a candidate URL\<close>

text \<open>
  What \<open>requests.head(url, ..., timeout=10, allow_redirects=True)\<close> can do: raise
  (connection error, timeout, invalid URL), or return a response with a status code and
  headers, of which only \<open>content-type\<close> is read (\<open>None\<close> when the header is absent).
\<close>

datatype head_outcome =
    Head_raises
  | Head_response nat "string option"

datatype log_level = INFO | WARNING | ERROR | CRITICAL

text \<open>
  \<open>check_pdf_url_exists\<close>: the result and the level of the one line it logs.
\<close>

definition check_pdf_url_exists_log :: "(string \<Rightarrow> head_outcome) \<Rightarrow> string \<Rightarrow> bool \<times> log_level" where
  "check_pdf_url_exists_log head url =
     (case head url of
        Head_raises \<Rightarrow> (False, ERROR)
      | Head_response status_code ct \<Rightarrow>
          (let content_type = lower (case ct of None \<Rightarrow> '''' | Some v \<Rightarrow> v)
           in if status_code = 200 \<and> contains_str ''pdf'' content_type
              then (True, INFO)
              else (False, WARNING)))"

definition check_pdf_url_exists :: "(string \<Rightarrow> head_outcome) \<Rightarrow> string \<Rightarrow> bool" where
  "check_pdf_url_exists head url = fst (check_pdf_url_exists_log head url)"

section \<open>Local artifact names\<close>

text \<open>
  \<open>str.isalnum()\<close> on Latin-1: the ASCII letters and digits, the accented letters, the
  ordinal indicators, the micro sign, the superscript digits and the vulgar fractions.
  The regular expression class \<open>\w\<close> of a \<open>str\<close> pattern is \<open>isalnum\<close> or the underscore.
\<close>

definition isalnum :: "char \<Rightarrow> bool" where
  "isalnum c =
     (let n = (of_char c :: nat)
      in (48 \<le> n \<and> n \<le> 57) \<or> (65 \<le> n \<and> n \<le> 90) \<or> (97 \<le> n \<and> n \<le> 122) \<or>
         n = 170 \<or> n = 178 \<or> n = 179 \<or> n = 181 \<or> n = 185 \<or> n = 186 \<or>
         (188 \<le> n \<and> n \<le> 190) \<or> (192 \<le> n \<and> n \<le> 214) \<or>
         (216 \<le> n \<and> n \<le> 246) \<or> (248 \<le> n \<and> n \<le> 255))"

definition word_char :: "char \<Rightarrow> bool" where
  "word_char c = (isalnum c \<or> c = CHR ''_'')"

text \<open>\<open>re.sub(r'[^\w\-_.]', '_', circular_number)\<close>\<close>

definition safe_name :: "string \<Rightarrow> string" where
  "safe_name circular_number =
     map (\<lambda>c. if word_char c \<or> c = CHR ''-'' \<or> c = CHR ''_'' \<or> c = CHR ''.'' then c else CHR ''_'')
       circular_number"

text \<open>
  \<open>datetime.now().strftime('%Y%m%d_%H%M%S')\<close>: the year in decimal, the other fields
  zero-padded to two digits.
\<close>

record datetime =
  year :: nat
  month :: nat
  day :: nat
  hour :: nat
  minute :: nat
  second :: nat

definition digit_char :: "nat \<Rightarrow> char" where
  "digit_char n = char_of (48 + n)"

fun dec :: "nat \<Rightarrow> string" where
  "dec n = (if n < 10 then [digit_char n] else dec (n div 10) @ [digit_char (n mod 10)])"

declare dec.simps [simp del]

definition pad2 :: "nat \<Rightarrow> string" where
  "pad2 n = (if n < 10 then CHR ''0'' # dec n else dec n)"

definition strftime_stamp :: "datetime \<Rightarrow> string" where
  "strftime_stamp t =
     dec (year t) @ pad2 (month t) @ pad2 (day t) @ ''_'' @
     pad2 (hour t) @ pad2 (minute t) @ pad2 (second t)"

text \<open>
  The names of \<open>create_pdf_from_html_content\<close> (\<open>.pdf\<close>, or \<open>.html\<close> when weasyprint is
  not installed) and of \<open>create_checklist_file\<close>.
\<close>

definition artifact_filename :: "string \<Rightarrow> string \<Rightarrow> string \<Rightarrow> string \<Rightarrow> string" where
  "artifact_filename prefix circular_number stamp ext =
     prefix @ safe_name circular_number @ ''_'' @ stamp @ ext"

definition synthesized_pdf_filename :: "string \<Rightarrow> datetime \<Rightarrow> string" where
  "synthesized_pdf_filename circular_number now =
     artifact_filename ''RBI_Circular_'' circular_number (strftime_stamp now) ''.pdf''"

definition synthesized_html_filename :: "string \<Rightarrow> datetime \<Rightarrow> string" where
  "synthesized_html_filename circular_number now =
     artifact_filename ''RBI_Circular_'' circular_number (strftime_stamp now) ''.html''"

definition checklist_filename :: "string \<Rightarrow> datetime \<Rightarrow> string" where
  "checklist_filename circular_number now =
     artifact_filename ''RBI_Checklist_'' circular_number (strftime_stamp now) ''.txt''"

text \<open>The character set \<open>[A-Za-z0-9_.-]\<close> that the specification names.\<close>

definition in_spec_charset :: "char \<Rightarrow> bool" where
  "in_spec_charset c =
     (let n = (of_char c :: nat)
      in (48 \<le> n \<and> n \<le> 57) \<or> (65 \<le> n \<and> n \<le> 90) \<or> (97 \<le> n \<and> n \<le> 122) \<or>
         c = CHR ''_'' \<or> c = CHR ''.'' \<or> c = CHR ''-'')"

definition is_ascii :: "char \<Rightarrow> bool" where
  "is_ascii c = ((of_char c :: nat) < 128)"

section \<open>The state store\<close>

text \<open>
  The files of the working directory: a content for each path that exists, and the paths
  that cannot be opened for writing (\<open>open(path, 'w')\<close> raises there and leaves the
  file as it is). A file that exists can be read, and the locale's encoding represents
  every character written (as UTF-8 does), so that encoding and decoding cancel.
\<close>

record filesystem =
  files :: "string \<Rightarrow> string option"
  unwritable :: "string \<Rightarrow> bool"

definition LAST_CIRCULAR_FILE :: string where
  "LAST_CIRCULAR_FILE = ''last_circular.txt''"

text \<open>
  Reading in text mode with the default \<open>newline=None\<close> turns \<open>\r\n\<close> and a lone
  \<open>\r\<close> into \<open>\n\<close>; writing on POSIX leaves the text as it is.
\<close>

fun universal_newlines :: "string \<Rightarrow> string" where
  "universal_newlines [] = []"
| "universal_newlines [c] = [if c = CHR 0x0D then CHR 0x0A else c]"
| "universal_newlines (c # d # ds) =
     (if c = CHR 0x0D \<and> d = CHR 0x0A then CHR 0x0A # universal_newlines ds
      else if c = CHR 0x0D then CHR 0x0A # universal_newlines (d # ds)
      else c # universal_newlines (d # ds))"

definition read_text :: "filesystem \<Rightarrow> string \<Rightarrow> string option" where
  "read_text fs path = map_option universal_newlines (files fs path)"

datatype error = IOError | IndexError | ValueError | RequestException | OtherException

definition write_text :: "filesystem \<Rightarrow> string \<Rightarrow> string \<Rightarrow> error + filesystem" where
  "write_text fs path text =
     (if unwritable fs path then Inl IOError
      else Inr (fs\<lparr>files := (files fs)(path \<mapsto> text)\<rparr>))"

definition get_last_circular_id :: "filesystem \<Rightarrow> string option" where
  "get_last_circular_id fs =
     (if files fs LAST_CIRCULAR_FILE \<noteq> None
      then map_option strip (read_text fs LAST_CIRCULAR_FILE)
      else None)"

definition set_last_circular_id :: "filesystem \<Rightarrow> string \<Rightarrow> error + filesystem" where
  "set_last_circular_id fs circular_id = write_text fs LAST_CIRCULAR_FILE circular_id"

text \<open>A string with leading or trailing whitespace.\<close>

definition surrounding_whitespace :: "string \<Rightarrow> bool" where
  "surrounding_whitespace s = (s \<noteq> [] \<and> (isspace (hd s) \<or> isspace (last s)))"

text \<open>Saving an identifier and loading it back, as two runs in a row do.\<close>

definition save_then_load :: "filesystem \<Rightarrow> string \<Rightarrow> error + string option" where
  "save_then_load fs circular_id =
     (case set_last_circular_id fs circular_id of
        Inl e \<Rightarrow> Inl e
      | Inr fs' \<Rightarrow> Inr (get_last_circular_id fs'))"

text \<open>A working directory with no file in it, where every path can be written.\<close>

definition empty_fs :: filesystem where
  "empty_fs = \<lparr>files = Map.empty, unwritable = (\<lambda>p. False)\<rparr>"

text \<open>
  A clock reading with a four-digit year, as \<open>datetime.now()\<close> gives today: its stamp
  has 15 characters.
\<close>

definition clock_time :: "datetime \<Rightarrow> bool" where
  "clock_time t =
     (1000 \<le> year t \<and> year t < 10000 \<and> month t < 100 \<and> day t < 100 \<and>
      hour t < 100 \<and> minute t < 100 \<and> second t < 100)"

text \<open>A sample clock reading.\<close>

definition sample_time :: datetime where
  "sample_time = \<lparr>year = 2025, month = 1, day = 2, hour = 3, minute = 4, second = 5\<rparr>"

section \<open>The parsed page\<close>

text \<open>
  The tree that \<open>BeautifulSoup(page_source, 'html.parser')\<close> builds: an element with its
  name, its attributes (a dictionary, read with \<open>map_of\<close>) and its children, or a string
  of text. The soup itself is the root element, named \<open>[document]\<close>.
\<close>

datatype node =
    Tag string "(string \<times> string) list" "node list"
  | NavigableString string

text \<open>\<open>tag.descendants\<close>: every node below a node, in document order.\<close>

fun descendants :: "node \<Rightarrow> node list" where
  "descendants (Tag name attrs contents) = concat (map (\<lambda>c. c # descendants c) contents)"
| "descendants (NavigableString s) = []"

fun is_tag :: "string list \<Rightarrow> node \<Rightarrow> bool" where
  "is_tag names (Tag name attrs contents) = (name \<in> set names)"
| "is_tag names (NavigableString s) = False"

text \<open>\<open>tag.find_all(names)\<close>\<close>

definition find_all :: "string list \<Rightarrow> node \<Rightarrow> node list" where
  "find_all names nd = filter (is_tag names) (descendants nd)"

text \<open>\<open>tag.get(key)\<close>\<close>

fun tag_get :: "node \<Rightarrow> string \<Rightarrow> string option" where
  "tag_get (Tag name attrs contents) key = map_of attrs key"
| "tag_get (NavigableString s) key = None"

text \<open>\<open>tag.find('a', href=True)\<close>: the first \<open>a\<close> element below that has an \<open>href\<close>.\<close>

definition find_a_href :: "node \<Rightarrow> node option" where
  "find_a_href nd = List.find (\<lambda>d. tag_get d ''href'' \<noteq> None) (find_all [''a''] nd)"

fun strings :: "node list \<Rightarrow> string list" where
  "strings [] = []"
| "strings (NavigableString s # ds) = s # strings ds"
| "strings (Tag name attrs contents # ds) = strings ds"

text \<open>
  \<open>tag.get_text(strip=True)\<close>: the strings below the node, each stripped, the empty ones
  left out, joined with nothing between them.
\<close>

definition get_text_strip :: "node \<Rightarrow> string" where
  "get_text_strip nd = concat (filter (\<lambda>s. s \<noteq> []) (map strip (strings (descendants nd))))"

section \<open>The index parser\<close>

text \<open>
  One entry of the index, the dictionary that \<open>parse_circulars_table\<close> builds for a row.
\<close>

record circular =
  link :: node
  href :: string
  circular_number :: string
  date :: string
  department :: string
  subject :: string

definition DETAIL_PATTERN :: string where
  "DETAIL_PATTERN = ''BS_CircularIndexDisplay.aspx?Id=''"

text \<open>
  The body of the inner loop for one row: the list of circulars after the row. Nothing in
  the \<open>try\<close> block can raise once the link has been found, so its handler has no branch.
\<close>

definition parse_row :: "circular list \<Rightarrow> node \<Rightarrow> circular list" where
  "parse_row circulars row =
     (let cells = find_all [''td'', ''th''] row
      in if length cells \<ge> 4
         then (let first_cell = cells ! 0
               in case find_a_href first_cell of
                    None \<Rightarrow> circulars
                  | Some lnk \<Rightarrow>
                      (case tag_get lnk ''href'' of
                         None \<Rightarrow> circulars
                       | Some h \<Rightarrow>
                           if contains_str DETAIL_PATTERN h
                           then circulars @
                             [\<lparr>link = lnk, href = h,
                               circular_number = get_text_strip lnk,
                               date = (if length cells > 1 then get_text_strip (cells ! 1) else ''''),
                               department = (if length cells > 2 then get_text_strip (cells ! 2) else ''''),
                               subject = (if length cells > 3 then get_text_strip (cells ! 3) else '''')\<rparr>]
                           else circulars))
         else circulars)"

fun parse_rows :: "circular list \<Rightarrow> node list \<Rightarrow> circular list" where
  "parse_rows circulars [] = circulars"
| "parse_rows circulars (row # rows) = parse_rows (parse_row circulars row) rows"

fun parse_tables :: "circular list \<Rightarrow> node list \<Rightarrow> circular list" where
  "parse_tables circulars [] = circulars"
| "parse_tables circulars (table # tables) =
     parse_tables (parse_rows circulars (find_all [''tr''] table)) tables"

definition parse_circulars_table :: "node \<Rightarrow> circular list" where
  "parse_circulars_table soup = parse_tables [] (find_all [''table''] soup)"

text \<open>
  The words of the specification. The rows of the markup are the \<open>tr\<close> elements that lie
  inside a table, in document order, each once.
\<close>

fun rows_within :: "bool \<Rightarrow> node \<Rightarrow> node list" where
  "rows_within inside (Tag name attrs contents) =
     (if inside \<and> name = ''tr'' then [Tag name attrs contents] else []) @
     concat (map (rows_within (inside \<or> name = ''table'')) contents)"
| "rows_within inside (NavigableString s) = []"

fun table_rows :: "node \<Rightarrow> node list" where
  "table_rows (Tag name attrs contents) = concat (map (rows_within False) contents)"
| "table_rows (NavigableString s) = []"

text \<open>
  A well-formed row in the words of the specification: at least 4 cells, the first cell
  holding a link that matches the detail-page pattern.
\<close>

definition holds_detail_link :: "node \<Rightarrow> bool" where
  "holds_detail_link cell =
     list_ex (\<lambda>a. case tag_get a ''href'' of None \<Rightarrow> False | Some h \<Rightarrow> contains_str DETAIL_PATTERN h)
       (find_all [''a''] cell)"

definition well_formed_row :: "node \<Rightarrow> bool" where
  "well_formed_row row =
     (let cells = find_all [''td'', ''th''] row
      in length cells \<ge> 4 \<and> holds_detail_link (hd cells))"

text \<open>
  The rows the parser accepts: at least 4 cells, and the first hyperlink of the first
  cell (its first \<open>a\<close> element with an \<open>href\<close>) matches the detail-page pattern.
\<close>

definition accepted_row :: "node \<Rightarrow> bool" where
  "accepted_row row =
     (let cells = find_all [''td'', ''th''] row
      in length cells \<ge> 4 \<and>
         (case find_a_href (hd cells) of
            None \<Rightarrow> False
          | Some lnk \<Rightarrow>
              (case tag_get lnk ''href'' of None \<Rightarrow> False | Some h \<Rightarrow> contains_str DETAIL_PATTERN h)))"

text \<open>No table of the page lies inside another table.\<close>

definition no_nested_tables :: "node \<Rightarrow> bool" where
  "no_nested_tables soup =
     list_all (\<lambda>t. find_all [''table''] t = []) (find_all [''table''] soup)"

text \<open>Sample index pages. A row as the site publishes it:\<close>

definition index_row :: "string \<Rightarrow> string \<Rightarrow> string \<Rightarrow> string \<Rightarrow> string \<Rightarrow> node" where
  "index_row h number d dep subj =
     Tag ''tr'' []
       [Tag ''td'' [] [Tag ''a'' [(''href'', h)] [NavigableString number]],
        Tag ''td'' [] [NavigableString d],
        Tag ''td'' [] [NavigableString dep],
        Tag ''td'' [] [NavigableString subj]]"

definition header_row :: node where
  "header_row =
     Tag ''tr'' []
       [Tag ''th'' [] [NavigableString ''Circular Number''],
        Tag ''th'' [] [NavigableString ''Date Of Issue''],
        Tag ''th'' [] [NavigableString ''Department''],
        Tag ''th'' [] [NavigableString ''Subject'']]"

definition short_row :: node where
  "short_row =
     Tag ''tr'' []
       [Tag ''td'' [] [Tag ''a'' [(''href'', ''BS_CircularIndexDisplay.aspx?Id=7777'')]
          [NavigableString ''DOR.2025.00'']],
        Tag ''td'' [] [NavigableString ''31.12.2024'']]"

text \<open>A header, two published circulars and a row of two cells between them.\<close>

definition sample_index :: node where
  "sample_index =
     Tag ''[document]'' []
       [Tag ''table'' []
          [header_row,
           index_row ''BS_CircularIndexDisplay.aspx?Id=9999'' '' DOR.2025.02 '' ''02.01.2025''
             ''DOR'' ''Guidelines on Y'',
           short_row,
           index_row ''BS_CircularIndexDisplay.aspx?Id=9998'' ''DOR.2025.01'' ''01.01.2025''
             ''DOR'' ''Guidelines on X'']]"

text \<open>
  A layout table whose second cell holds the table of circulars: the one published row
  lies inside two tables.
\<close>

definition nested_index :: node where
  "nested_index =
     Tag ''[document]'' []
       [Tag ''table'' []
          [Tag ''tr'' []
             [Tag ''td'' [] [NavigableString ''Home''],
              Tag ''td'' []
                [Tag ''table'' []
                   [index_row ''BS_CircularIndexDisplay.aspx?Id=9999'' ''DOR.2025.01''
                      ''01.01.2025'' ''DOR'' ''Guidelines on X'']]]]]"

text \<open>A row whose first cell holds two links, the second of which is the detail link.\<close>

definition two_links_row :: node where
  "two_links_row =
     Tag ''tr'' []
       [Tag ''td'' []
          [Tag ''a'' [(''href'', ''#top'')] [NavigableString ''^''],
           Tag ''a'' [(''href'', ''BS_CircularIndexDisplay.aspx?Id=9999'')]
             [NavigableString ''DOR.2025.01'']],
        Tag ''td'' [] [NavigableString ''01.01.2025''],
        Tag ''td'' [] [NavigableString ''DOR''],
        Tag ''td'' [] [NavigableString ''Guidelines on X'']]"

definition two_links_index :: node where
  "two_links_index = Tag ''[document]'' [] [Tag ''table'' [] [two_links_row]]"

text \<open>A row whose detail link has no text.\<close>

definition untitled_index :: node where
  "untitled_index =
     Tag ''[document]'' []
       [Tag ''table'' []
          [index_row ''BS_CircularIndexDisplay.aspx?Id=9999'' '' '' ''01.01.2025'' ''DOR''
             ''Guidelines on X'']]"

text \<open>
  The rows the parser goes through: the rows below each table of a list of nodes, table
  after table.
\<close>

definition visited :: "node list \<Rightarrow> node list" where
  "visited ds = concat (map (find_all [''tr'']) (filter (is_tag [''table'']) ds))"

section \<open>The artifact resolver\<close>

text \<open>
  What the program meets outside itself in one run. The headless browser either cannot
  be set up, raises while loading or waiting for the page, or gives a page: its source
  as the parser reads it and the inner markup of its body (\<open>None\<close> when reading it
  raises). The network answers each URL the same way throughout a run.
  \<open>urllib.parse.urljoin\<close> and \<open>urlparse(url).path\<close> are parameters, and so is the
  order in which Python iterates over a set; \<open>urljoin\<close> gives \<open>None\<close> where it raises
  ValueError (on a malformed reference).
\<close>

record page =
  page_source :: node
  body_innerHTML :: "string option"

datatype browse_outcome = Driver_setup_failed | Load_raises | Loaded page

record response =
  status_code :: nat
  content_type :: "string option"
  content_length :: "string option"
  chunks :: "string list"
  stream_fails :: bool

datatype get_outcome = Get_raises | Get_response response

datatype weasyprint_outcome = Weasyprint_not_installed | Weasyprint_raises | Weasyprint_renders string

datatype auth_outcome = Auth_raises | Auth_none | Auth_creds "string option"

datatype gemini_outcome = Gemini_raises | Gemini_returns "string option"

record world =
  browse :: "string \<Rightarrow> browse_outcome"
  requests_head :: "string \<Rightarrow> head_outcome"
  requests_get :: "string \<Rightarrow> get_outcome"
  urljoin :: "string \<Rightarrow> string \<Rightarrow> string option"
  urlparse_path :: "string \<Rightarrow> string"
  set_order :: nat
  int_parses :: "string \<Rightarrow> bool"
  clock :: datetime
  script_dir :: string
  weasyprint :: weasyprint_outcome
  pdfplumber :: "string \<Rightarrow> string option list option"
  authenticate_google_apis :: auth_outcome
  build_raises :: bool
  upload_drive :: "string \<Rightarrow> string option"
  generate_checklist_from_text :: "string \<Rightarrow> gemini_outcome"
  send_gmail_api_email :: bool

text \<open>\<open>xs[i]\<close> raises IndexError out of range.\<close>

definition index :: "'a list \<Rightarrow> nat \<Rightarrow> error + 'a" where
  "index xs i = (if i < length xs then Inr (xs ! i) else Inl IndexError)"

text \<open>\<open>list(set(xs))\<close>: the distinct elements, in an order that the parameter fixes.\<close>

definition list_of_set :: "nat \<Rightarrow> 'a list \<Rightarrow> 'a list" where
  "list_of_set k xs = rotate k (remdups xs)"

definition generate_pdf_from_circular_id :: "string \<Rightarrow> string list" where
  "generate_pdf_from_circular_id circular_id =
     [''https://rbidocs.rbi.org.in/rdocs/content/pdfs/'' @ circular_id @ ''.pdf'',
      ''https://www.rbi.org.in/Scripts/BS_PressReleaseDisplay.aspx?prid='' @ circular_id,
      ''https://rbidocs.rbi.org.in/rdocs/circulars/'' @ circular_id @ ''.pdf'']"

text \<open>
  \<open>circular_url.split('?Id=')[1].split('&')[0]\<close> when the URL contains \<open>?Id=\<close>,
  otherwise \<open>None\<close>.
\<close>

definition extract_circular_id :: "string \<Rightarrow> error + string option" where
  "extract_circular_id circular_url =
     (if contains_str ''?Id='' circular_url
      then (case index (split circular_url ''?Id='') 1 of
              Inl e \<Rightarrow> Inl e
            | Inr rest \<Rightarrow>
                (case index (split rest ''&'') 0 of
                   Inl e \<Rightarrow> Inl e
                 | Inr circular_id \<Rightarrow> Inr (Some circular_id)))
      else Inr None)"

text \<open>
  The first loop, over the \<open>href\<close> of every \<open>a\<close> element that has one. A raise of
  \<open>urljoin\<close> ends the loop.
\<close>

fun scan_links ::
  "(string \<Rightarrow> head_outcome) \<Rightarrow> (string \<Rightarrow> string \<Rightarrow> string option) \<Rightarrow> string \<Rightarrow> string list \<Rightarrow>
     string list \<Rightarrow> error + string list"
where
  "scan_links hd_req join circular_url pdf_links [] = Inr pdf_links"
| "scan_links hd_req join circular_url pdf_links (h # hrefs) =
     (if endswith (lower h) ''.pdf'' \<and> \<not> contains_str ''utkarsh'' (lower h)
      then (case join circular_url h of
              None \<Rightarrow> Inl ValueError
            | Some full_url \<Rightarrow>
                scan_links hd_req join circular_url
                  (if check_pdf_url_exists hd_req full_url then pdf_links @ [full_url]
                   else pdf_links)
                  hrefs)
      else scan_links hd_req join circular_url pdf_links hrefs)"

text \<open>\<open>tag.get('src') or tag.get('data')\<close>\<close>

definition src_or_data :: "node \<Rightarrow> string option" where
  "src_or_data tag =
     (case tag_get tag ''src'' of
        None \<Rightarrow> tag_get tag ''data''
      | Some s \<Rightarrow> if s \<noteq> [] then Some s else tag_get tag ''data'')"

text \<open>The second loop, over the \<open>object\<close>, \<open>iframe\<close> and \<open>embed\<close> elements.\<close>

fun scan_embeds ::
  "(string \<Rightarrow> head_outcome) \<Rightarrow> (string \<Rightarrow> string \<Rightarrow> string option) \<Rightarrow> string \<Rightarrow> string list \<Rightarrow>
     node list \<Rightarrow> error + string list"
where
  "scan_embeds hd_req join circular_url pdf_links [] = Inr pdf_links"
| "scan_embeds hd_req join circular_url pdf_links (tag # tags) =
     (case src_or_data tag of
        None \<Rightarrow> scan_embeds hd_req join circular_url pdf_links tags
      | Some src \<Rightarrow>
          if src \<noteq> [] \<and> contains_str ''.pdf'' (lower src) \<and> \<not> contains_str ''utkarsh'' (lower src)
          then (case join circular_url src of
                  None \<Rightarrow> Inl ValueError
                | Some full_url \<Rightarrow>
                    scan_embeds hd_req join circular_url
                      (if check_pdf_url_exists hd_req full_url then pdf_links @ [full_url]
                       else pdf_links)
                      tags)
          else scan_embeds hd_req join circular_url pdf_links tags)"

text \<open>The third loop, which stops at the first URL that validates.\<close>

fun try_generated :: "(string \<Rightarrow> head_outcome) \<Rightarrow> string list \<Rightarrow> string list \<Rightarrow> string list" where
  "try_generated hd_req pdf_links [] = pdf_links"
| "try_generated hd_req pdf_links (url # urls) =
     (if check_pdf_url_exists hd_req url then pdf_links @ [url]
      else try_generated hd_req pdf_links urls)"

definition hrefs_of :: "node \<Rightarrow> string list" where
  "hrefs_of soup = List.map_filter (\<lambda>a. tag_get a ''href'') (find_all [''a''] soup)"

text \<open>The candidates after the two scans of the page, unless \<open>urljoin\<close> raised.\<close>

definition scanned_links :: "world \<Rightarrow> string \<Rightarrow> node \<Rightarrow> error + string list" where
  "scanned_links w circular_url soup =
     (case scan_links (requests_head w) (urljoin w) circular_url [] (hrefs_of soup) of
        Inl e \<Rightarrow> Inl e
      | Inr pdf_links \<Rightarrow>
          scan_embeds (requests_head w) (urljoin w) circular_url pdf_links
            (find_all [''object'', ''iframe'', ''embed''] soup))"

text \<open>
  \<open>get_pdf_from_circular_page\<close> returns the pair \<open>(pdf_url, html_content)\<close>; every
  exception inside its \<open>try\<close> gives \<open>(None, None)\<close>.
\<close>

definition get_pdf_from_circular_page :: "world \<Rightarrow> string \<Rightarrow> string option \<times> string option" where
  "get_pdf_from_circular_page w circular_url =
     (case browse w circular_url of
        Driver_setup_failed \<Rightarrow> (None, None)
      | Load_raises \<Rightarrow> (None, None)
      | Loaded pg \<Rightarrow>
          (case extract_circular_id circular_url of
             Inl e \<Rightarrow> (None, None)
           | Inr circular_id \<Rightarrow>
               (case scanned_links w circular_url (page_source pg) of
                  Inl e \<Rightarrow> (None, None)
                | Inr pdf_links \<Rightarrow>
                    (let pdf_links =
                           (case circular_id of
                              None \<Rightarrow> pdf_links
                            | Some cid \<Rightarrow>
                                if cid \<noteq> [] \<and> pdf_links = []
                                then try_generated (requests_head w) pdf_links
                                       (generate_pdf_from_circular_id cid)
                                else pdf_links)
                     in if pdf_links = []
                        then (case body_innerHTML pg of
                                None \<Rightarrow> (None, None)
                              | Some page_content \<Rightarrow> (Some ''HTML_ONLY'', Some page_content))
                        else (let pdf_links = list_of_set (set_order w) pdf_links
                              in if pdf_links \<noteq> [] then (Some (pdf_links ! 0), None)
                                 else (None, None))))))"

definition BASE_PAGE :: string where
  "BASE_PAGE = ''https://rbi.org.in/Scripts/BS_CircularIndexDisplay.aspx''"

definition RBI_BASE :: string where
  "RBI_BASE = ''https://rbi.org.in/Scripts/''"

text \<open>
  \<open>get_latest_circular_info\<close>: the first circular of the index, with the absolute URL of
  its detail page (the entry \<open>url\<close> that the function adds to the dictionary).
\<close>

definition get_latest_circular_info :: "world \<Rightarrow> (circular \<times> string) option" where
  "get_latest_circular_info w =
     (case browse w BASE_PAGE of
        Driver_setup_failed \<Rightarrow> None
      | Load_raises \<Rightarrow> None
      | Loaded pg \<Rightarrow>
          (let circulars = parse_circulars_table (page_source pg)
           in case circulars of
                [] \<Rightarrow> None
              | latest_circular # rest \<Rightarrow>
                  (case urljoin w RBI_BASE (href latest_circular) of
                     None \<Rightarrow> None
                   | Some circular_url \<Rightarrow> Some (latest_circular, circular_url))))"

text \<open>The marker test of the two scans, on a reference as the page writes it.\<close>

definition marked :: "string \<Rightarrow> bool" where
  "marked ref = contains_str ''utkarsh'' (lower ref)"

definition html_only :: "page \<Rightarrow> string option \<times> string option" where
  "html_only pg =
     (case body_innerHTML pg of
        None \<Rightarrow> (None, None)
      | Some page_content \<Rightarrow> (Some ''HTML_ONLY'', Some page_content))"

text \<open>
  Sample worlds. \<open>sample_urljoin\<close> agrees with \<open>urljoin\<close> on the references of the
  samples: an absolute reference stays, a file name is resolved in the directory of the
  site's scripts, and a reference that opens an unclosed bracketed host raises.
\<close>

definition sample_urljoin :: "string \<Rightarrow> string \<Rightarrow> string option" where
  "sample_urljoin base ref =
     (if startswith ref ''//['' then None
      else if startswith ref ''https://'' then Some ref
      else Some (''https://rbi.org.in/Scripts/'' @ ref))"

text \<open>The path of a URL on the host \<open>rbidocs.rbi.org.in\<close> that has no query.\<close>

definition sample_urlparse_path :: "string \<Rightarrow> string" where
  "sample_urlparse_path u = drop (length ''https://rbidocs.rbi.org.in'') u"

text \<open>A world where nothing answers: the browser does not load, every request raises.\<close>

definition offline_world :: world where
  "offline_world =
     \<lparr>browse = (\<lambda>u. Load_raises),
      requests_head = (\<lambda>u. Head_raises),
      requests_get = (\<lambda>u. Get_raises),
      urljoin = sample_urljoin,
      urlparse_path = sample_urlparse_path,
      set_order = 0,
      int_parses = (\<lambda>s. s \<noteq> [] \<and> list_all (\<lambda>c. c \<in> set ''0123456789'') s),
      clock = sample_time,
      script_dir = ''/opt/rbi'',
      weasyprint = Weasyprint_not_installed,
      pdfplumber = (\<lambda>content. None),
      authenticate_google_apis = Auth_raises,
      build_raises = False,
      upload_drive = (\<lambda>path. None),
      generate_checklist_from_text = (\<lambda>text. Gemini_returns None),
      send_gmail_api_email = False\<rparr>"

definition detail_url :: string where
  "detail_url = ''https://rbi.org.in/Scripts/BS_CircularIndexDisplay.aspx?Id=9999''"

text \<open>A detail page with no link and no embedded document.\<close>

definition plain_page :: page where
  "plain_page =
     \<lparr>page_source = Tag ''[document]'' [] [Tag ''p'' [] [NavigableString ''Guidelines on X'']],
      body_innerHTML = Some ''<p>Guidelines on X</p>''\<rparr>"

text \<open>
  A detail page that links a document, a watermarked copy of it and, in a frame, a second
  copy.
\<close>

definition linked_page :: page where
  "linked_page =
     \<lparr>page_source =
        Tag ''[document]'' []
          [Tag ''a'' [(''href'', ''https://rbidocs.rbi.org.in/rdocs/notification/PDFs/Utkarsh9999.PDF'')]
             [NavigableString ''PDF''],
           Tag ''a'' [(''href'', ''https://rbidocs.rbi.org.in/rdocs/notification/PDFs/NT9999.PDF'')]
             [NavigableString ''PDF''],
           Tag ''iframe'' [(''src'', ''''), (''data'', ''https://rbidocs.rbi.org.in/rdocs/utkarsh/NT9999.pdf#view'')] []],
      body_innerHTML = Some ''<a>PDF</a>''\<rparr>"

text \<open>Every URL answers 200 with a PDF content type.\<close>

definition pdf_everywhere :: "string \<Rightarrow> head_outcome" where
  "pdf_everywhere u = Head_response 200 (Some ''application/pdf'')"

text \<open>Only the second generated pattern of identifier 9999 answers with a PDF.\<close>

definition second_pattern_only :: "string \<Rightarrow> head_outcome" where
  "second_pattern_only u =
     (if u = ''https://www.rbi.org.in/Scripts/BS_PressReleaseDisplay.aspx?prid=9999''
      then Head_response 200 (Some ''application/pdf; qs=0.001'')
      else Head_response 404 (Some ''text/html''))"

definition fallback_world :: world where
  "fallback_world =
     offline_world\<lparr>browse := (\<lambda>u. Loaded plain_page), requests_head := second_pattern_only\<rparr>"

definition unanswered_world :: world where
  "unanswered_world = offline_world\<lparr>browse := (\<lambda>u. Loaded plain_page)\<rparr>"

definition linked_world :: world where
  "linked_world =
     offline_world\<lparr>browse := (\<lambda>u. Loaded linked_page), requests_head := pdf_everywhere\<rparr>"

text \<open>The page has no link, and every URL answers with a PDF.\<close>

definition generous_world :: world where
  "generous_world =
     offline_world\<lparr>browse := (\<lambda>u. Loaded plain_page), requests_head := pdf_everywhere\<rparr>"

text \<open>The marker test on an embedded element: on its \<open>src\<close>, or else its \<open>data\<close>.\<close>

definition marked_embed :: "node \<Rightarrow> bool" where
  "marked_embed tag = (case src_or_data tag of None \<Rightarrow> False | Some src \<Rightarrow> marked src)"

section \<open>The fetcher\<close>

text \<open>\<open>os.path.join\<close> on POSIX, for two components.\<close>

definition path_join :: "string \<Rightarrow> string \<Rightarrow> string" where
  "path_join a b =
     (if startswith b ''/'' then b
      else if a = [] \<or> endswith a ''/'' then a @ b
      else a @ ''/'' @ b)"

datatype log_message =
    Downloading_PDF string
  | Content_Type string
  | PDF_saved string nat
  | Not_a_valid_PDF
  | Failed_downloading
  | Unexpected_error_downloading

text \<open>
  The name of the downloaded file: the last segment of the URL's path (or
  \<open>rbi_circular_<stamp>.pdf\<close> when it is empty), with \<open>.pdf\<close> appended unless it ends so in
  any case, cut at its last \<open>.pdf\<close> and completed with the stamp. \<open>split\<close> returns at
  least one piece, so \<open>[-1]\<close> and \<open>[0]\<close> do not raise.
\<close>

definition download_filename :: "world \<Rightarrow> string \<Rightarrow> string" where
  "download_filename w pdf_url =
     (let url_path = urlparse_path w pdf_url;
          stamp = strftime_stamp (clock w);
          fname = hd (split (last (split url_path ''/'')) ''?'');
          fname = (if fname \<noteq> [] then fname else ''rbi_circular_'' @ stamp @ ''.pdf'');
          fname = (if \<not> endswith (lower fname) ''.pdf'' then fname @ ''.pdf'' else fname);
          name_parts_0 = rsplit1_head fname ''.pdf''
      in name_parts_0 @ ''_'' @ stamp @ ''.pdf'')"

definition download_path :: "world \<Rightarrow> string \<Rightarrow> string" where
  "download_path w pdf_url =
     path_join (path_join (script_dir w) ''downloads'') (download_filename w pdf_url)"

text \<open>
  \<open>download_pdf\<close>: the files afterwards, the path returned (or \<open>None\<close>) and the lines
  logged. \<open>raise_for_status\<close> raises on a status from 400 to 599; \<open>int\<close> raises on a
  \<open>content-length\<close> it cannot parse; \<open>makedirs\<close> and \<open>open\<close> raise on a path that cannot
  be written; the stream can fail after its chunks have been written. The file is read
  back in binary mode.
\<close>

definition download_pdf ::
  "world \<Rightarrow> filesystem \<Rightarrow> string \<Rightarrow> filesystem \<times> string option \<times> (log_level \<times> log_message) list"
where
  "download_pdf w fs pdf_url =
     (let log = [(INFO, Downloading_PDF pdf_url)]
      in case requests_get w pdf_url of
           Get_raises \<Rightarrow> (fs, None, log @ [(ERROR, Failed_downloading)])
         | Get_response r \<Rightarrow>
             if 400 \<le> status_code r \<and> status_code r < 600
             then (fs, None, log @ [(ERROR, Failed_downloading)])
             else
               (let ct = lower (case content_type r of None \<Rightarrow> '''' | Some v \<Rightarrow> v);
                    log = log @ [(INFO, Content_Type ct)];
                    path = download_path w pdf_url
                in if unwritable fs path \<or>
                      (case content_length r of None \<Rightarrow> False | Some v \<Rightarrow> \<not> int_parses w v)
                   then (fs, None, log @ [(ERROR, Unexpected_error_downloading)])
                   else
                     (let written = concat (filter (\<lambda>chunk. chunk \<noteq> []) (chunks r));
                          fs = fs\<lparr>files := (files fs)(path \<mapsto> written)\<rparr>
                      in if stream_fails r
                         then (fs, None, log @ [(ERROR, Failed_downloading)])
                         else
                           (let log = log @ [(INFO, PDF_saved path (length written))];
                                header = take 4 (case files fs path of None \<Rightarrow> [] | Some data \<Rightarrow> data);
                                log = (if header \<noteq> ''%PDF''
                                       then log @ [(WARNING, Not_a_valid_PDF)] else log)
                            in (fs, Some path, log)))))"

section \<open>Synthesized documents and the checklist\<close>

text \<open>
  \<open>create_pdf_from_html_content\<close>: with weasyprint, the rendered bytes are written and
  every exception gives \<open>None\<close>; without it the markup is written as it is, and an
  exception there leaves the function (writing \<open>None\<close> raises TypeError once the file is
  open).
\<close>

definition create_pdf_from_html_content ::
  "world \<Rightarrow> filesystem \<Rightarrow> circular \<Rightarrow> string option \<Rightarrow> filesystem \<times> (error + string option)"
where
  "create_pdf_from_html_content w fs circular_data html_content =
     (case weasyprint w of
        Weasyprint_renders pdf \<Rightarrow>
          (let filepath = path_join ''downloads''
                 (synthesized_pdf_filename (circular_number circular_data) (clock w))
           in if unwritable fs filepath then (fs, Inr None)
              else (fs\<lparr>files := (files fs)(filepath \<mapsto> pdf)\<rparr>, Inr (Some filepath)))
      | Weasyprint_raises \<Rightarrow> (fs, Inr None)
      | Weasyprint_not_installed \<Rightarrow>
          (let filepath = path_join ''downloads''
                 (synthesized_html_filename (circular_number circular_data) (clock w))
           in if unwritable fs filepath then (fs, Inl IOError)
              else (case html_content of
                      None \<Rightarrow> (fs\<lparr>files := (files fs)(filepath \<mapsto> [])\<rparr>, Inl OtherException)
                    | Some markup \<Rightarrow>
                        (fs\<lparr>files := (files fs)(filepath \<mapsto> markup)\<rparr>, Inr (Some filepath)))))"

definition create_checklist_file ::
  "world \<Rightarrow> filesystem \<Rightarrow> string \<Rightarrow> circular \<Rightarrow> filesystem \<times> string option"
where
  "create_checklist_file w fs checklist_text circular_data =
     (let filepath = path_join (path_join (script_dir w) ''downloads'')
            (checklist_filename (circular_number circular_data) (clock w))
      in if unwritable fs filepath then (fs, None)
         else (fs\<lparr>files := (files fs)(filepath \<mapsto> checklist_text)\<rparr>, Some filepath))"

text \<open>
  The text of a downloaded PDF: the text of its pages that have some, one per line, or
  \<open>None\<close> when pdfplumber raises.
\<close>

fun join_lines :: "string list \<Rightarrow> string" where
  "join_lines [] = []"
| "join_lines [t] = t"
| "join_lines (t # u # ts) = t @ [CHR 0x0A] @ join_lines (u # ts)"

definition truthy :: "string option \<Rightarrow> bool" where
  "truthy v = (case v of None \<Rightarrow> False | Some s \<Rightarrow> s \<noteq> [])"

definition extract_pdf_text :: "world \<Rightarrow> filesystem \<Rightarrow> string \<Rightarrow> string option" where
  "extract_pdf_text w fs local_filepath =
     (case files fs local_filepath of
        None \<Rightarrow> None
      | Some data \<Rightarrow>
          (case pdfplumber w data of
             None \<Rightarrow> None
           | Some pages \<Rightarrow> Some (join_lines (List.map_filter id (filter truthy pages)))))"

section \<open>The run\<close>

text \<open>
  A run of \<open>main\<close>: the files it leaves, the calls it has made in order, and the way it
  ended (the message it logs last). The call of \<open>send_gmail_api_email\<close> is recorded with
  what the function returned: a message (\<open>True\<close>) or \<open>None\<close>.
\<close>

datatype call =
    Get_latest_circular_info
  | Get_pdf_from_circular_page string
  | Download_pdf string
  | Create_pdf_from_html_content
  | Authenticate_google_apis
  | Upload_drive string
  | Generate_checklist_from_text
  | Create_checklist_file
  | Send_gmail_api_email bool
  | Set_last_circular_id string

datatype exit =
    No_latest_circular
  | Already_processed
  | No_document
  | No_local_file
  | No_credentials
  | Authentication_failed
  | Upload_failed
  | Completed
  | Unhandled_exception

record run =
  final_fs :: filesystem
  calls :: "call list"
  exit :: exit

text \<open>Steps 7 and 8: the notification, whose result is dropped, and the state write.\<close>

definition notify_and_save :: "world \<Rightarrow> filesystem \<Rightarrow> call list \<Rightarrow> circular \<Rightarrow> run" where
  "notify_and_save w fs cs latest_circular =
     (let cs = cs @ [Send_gmail_api_email (send_gmail_api_email w)];
          current_circular_id = circular_number latest_circular;
          cs = cs @ [Set_last_circular_id current_circular_id]
      in case set_last_circular_id fs current_circular_id of
           Inl e \<Rightarrow> \<lparr>final_fs = fs, calls = cs, exit = Unhandled_exception\<rparr>
         | Inr fs' \<Rightarrow> \<lparr>final_fs = fs', calls = cs, exit = Completed\<rparr>)"

text \<open>
  Step 6: the checklist. \<open>generate_checklist_from_text\<close> configures the client outside
  its \<open>try\<close>, so it can raise.
\<close>

definition checklist_step ::
  "world \<Rightarrow> filesystem \<Rightarrow> call list \<Rightarrow> circular \<Rightarrow> string option \<Rightarrow>
     error + filesystem \<times> call list \<times> string option"
where
  "checklist_step w fs cs latest_circular circular_content =
     (case circular_content of
        None \<Rightarrow> Inr (fs, cs, None)
      | Some content \<Rightarrow>
          if content = [] then Inr (fs, cs, None)
          else
            (let cs = cs @ [Generate_checklist_from_text]
             in case generate_checklist_from_text w content of
                  Gemini_raises \<Rightarrow> Inl OtherException
                | Gemini_returns None \<Rightarrow> Inr (fs, cs, None)
                | Gemini_returns (Some checklist_text) \<Rightarrow>
                    if checklist_text = [] then Inr (fs, cs, None)
                    else
                      (case create_checklist_file w fs checklist_text latest_circular of
                         (fs, None) \<Rightarrow> Inr (fs, cs @ [Create_checklist_file], None)
                       | (fs, Some checklist_filepath) \<Rightarrow>
                           Inr (fs, cs @ [Create_checklist_file, Upload_drive checklist_filepath],
                                upload_drive w checklist_filepath))))"

text \<open>Steps 4 to 8, once the circular is a local file.\<close>

definition publish ::
  "world \<Rightarrow> filesystem \<Rightarrow> call list \<Rightarrow> circular \<Rightarrow> string \<Rightarrow> string option \<Rightarrow> run"
where
  "publish w fs cs latest_circular local_filepath circular_content =
     (if files fs ''credentials.json'' = None
      then \<lparr>final_fs = fs, calls = cs, exit = No_credentials\<rparr>
      else
        (let cs = cs @ [Authenticate_google_apis]
         in case authenticate_google_apis w of
              Auth_raises \<Rightarrow> \<lparr>final_fs = fs, calls = cs, exit = Unhandled_exception\<rparr>
            | Auth_none \<Rightarrow> \<lparr>final_fs = fs, calls = cs, exit = Authentication_failed\<rparr>
            | Auth_creds token \<Rightarrow>
                (case (case token of
                         None \<Rightarrow> Inr fs
                       | Some t \<Rightarrow> write_text fs ''token.json'' t) of
                   Inl e \<Rightarrow> \<lparr>final_fs = fs, calls = cs, exit = Unhandled_exception\<rparr>
                 | Inr fs \<Rightarrow>
                     if build_raises w
                     then \<lparr>final_fs = fs, calls = cs, exit = Unhandled_exception\<rparr>
                     else
                       (let cs = cs @ [Upload_drive local_filepath];
                            circular_drive_link = upload_drive w local_filepath
                        in if \<not> truthy circular_drive_link
                           then \<lparr>final_fs = fs, calls = cs, exit = Upload_failed\<rparr>
                           else
                             (case checklist_step w fs cs latest_circular circular_content of
                                Inl e \<Rightarrow> \<lparr>final_fs = fs, calls = cs, exit = Unhandled_exception\<rparr>
                              | Inr (fs, cs, checklist_drive_link) \<Rightarrow>
                                  notify_and_save w fs cs latest_circular)))))"

text \<open>Steps 2 and 3: the document of the new circular.\<close>

definition fetch_and_publish :: "world \<Rightarrow> filesystem \<Rightarrow> call list \<Rightarrow> circular \<Rightarrow> string \<Rightarrow> run" where
  "fetch_and_publish w fs cs latest_circular url =
     (let cs = cs @ [Get_pdf_from_circular_page url]
      in case get_pdf_from_circular_page w url of
           (pdf_url, html_content) \<Rightarrow>
             if truthy pdf_url \<and> pdf_url \<noteq> Some ''HTML_ONLY''
             then
               (let cs = cs @ [Download_pdf (case pdf_url of None \<Rightarrow> [] | Some u \<Rightarrow> u)]
                in case download_pdf w fs (case pdf_url of None \<Rightarrow> [] | Some u \<Rightarrow> u) of
                     (fs, local_filepath, log) \<Rightarrow>
                       (case local_filepath of
                          None \<Rightarrow> \<lparr>final_fs = fs, calls = cs, exit = No_local_file\<rparr>
                        | Some path \<Rightarrow>
                            if path = [] then \<lparr>final_fs = fs, calls = cs, exit = No_local_file\<rparr>
                            else publish w fs cs latest_circular path (extract_pdf_text w fs path)))
             else if pdf_url = Some ''HTML_ONLY''
             then
               (let cs = cs @ [Create_pdf_from_html_content]
                in case create_pdf_from_html_content w fs latest_circular html_content of
                     (fs, Inl e) \<Rightarrow> \<lparr>final_fs = fs, calls = cs, exit = Unhandled_exception\<rparr>
                   | (fs, Inr None) \<Rightarrow> \<lparr>final_fs = fs, calls = cs, exit = No_local_file\<rparr>
                   | (fs, Inr (Some path)) \<Rightarrow>
                       if path = [] then \<lparr>final_fs = fs, calls = cs, exit = No_local_file\<rparr>
                       else publish w fs cs latest_circular path html_content)
             else \<lparr>final_fs = fs, calls = cs, exit = No_document\<rparr>)"

definition main :: "world \<Rightarrow> filesystem \<Rightarrow> run" where
  "main w fs =
     (let last_circular_id = get_last_circular_id fs;
          cs = [Get_latest_circular_info]
      in case get_latest_circular_info w of
           None \<Rightarrow> \<lparr>final_fs = fs, calls = cs, exit = No_latest_circular\<rparr>
         | Some (latest_circular, url) \<Rightarrow>
             (let current_circular_id = circular_number latest_circular
              in if Some current_circular_id = last_circular_id
                 then \<lparr>final_fs = fs, calls = cs, exit = Already_processed\<rparr>
                 else fetch_and_publish w fs cs latest_circular url))"

text \<open>
  Sample runs. The site: the index page, and one detail page behind the first row of the
  index.
\<close>

definition site :: "page \<Rightarrow> string \<Rightarrow> browse_outcome" where
  "site detail u =
     (if u = BASE_PAGE
      then Loaded \<lparr>page_source = sample_index, body_innerHTML = Some ''<table></table>''\<rparr>
      else if u = detail_url then Loaded detail
      else Load_raises)"

definition pdf_response :: response where
  "pdf_response =
     \<lparr>status_code = 200, content_type = Some ''application/pdf'', content_length = Some ''9'',
      chunks = [''%PDF-1.7'', '''', ''x''], stream_fails = False\<rparr>"

text \<open>A download that answers 200 with a page of markup instead of a document.\<close>

definition html_response :: response where
  "html_response =
     \<lparr>status_code = 200, content_type = Some ''text/html'', content_length = None,
      chunks = [''<html></html>''], stream_fails = False\<rparr>"

text \<open>
  A world where every collaborator works, but the notification: the detail page links a
  PDF, the download gives it, Drive returns links, and \<open>send_gmail_api_email\<close> returns
  \<open>None\<close>.
\<close>

definition mail_down_world :: world where
  "mail_down_world =
     offline_world
       \<lparr>browse := site linked_page,
        requests_head := pdf_everywhere,
        requests_get := (\<lambda>u. Get_response pdf_response),
        pdfplumber := (\<lambda>data. Some [Some ''Guidelines on Y'', None, Some '''', Some ''Annex'']),
        authenticate_google_apis := Auth_creds None,
        upload_drive := (\<lambda>path. Some (''https://drive.google.com/file/d/'' @ path)),
        generate_checklist_from_text := (\<lambda>text. Gemini_returns (Some ''1. Is Y in place?'')),
        send_gmail_api_email := False\<rparr>"

text \<open>The working directory of a first run, with the credentials file in place.\<close>

definition office_fs :: filesystem where
  "office_fs = \<lparr>files = [''credentials.json'' \<mapsto> ''{}''], unwritable = (\<lambda>p. False)\<rparr>"

definition sample_pdf_url :: string where
  "sample_pdf_url = ''https://rbidocs.rbi.org.in/rdocs/notification/PDFs/NT9999.PDF''"

definition markup_world :: world where
  "markup_world = mail_down_world\<lparr>requests_get := (\<lambda>u. Get_response html_response)\<rparr>"

text \<open>Whether a list of calls holds a state write, and whether it holds a notification.\<close>

fun is_state_write :: "call \<Rightarrow> bool" where
  "is_state_write (Set_last_circular_id circular_id) = True"
| "is_state_write c = False"

fun is_notification :: "call \<Rightarrow> bool" where
  "is_notification (Send_gmail_api_email sent) = True"
| "is_notification c = False"

definition state_written :: "call list \<Rightarrow> bool" where
  "state_written cs = list_ex is_state_write cs"

definition notified :: "call list \<Rightarrow> bool" where
  "notified cs = list_ex is_notification cs"

text \<open>The state file, and whether it can be written, are in \<open>fs'\<close> as they are in \<open>fs\<close>.\<close>

definition state_kept :: "filesystem \<Rightarrow> filesystem \<Rightarrow> bool" where
  "state_kept fs fs' =
     (files fs' LAST_CIRCULAR_FILE = files fs LAST_CIRCULAR_FILE \<and>
      unwritable fs' LAST_CIRCULAR_FILE = unwritable fs LAST_CIRCULAR_FILE)"

text \<open>
  A list of calls that ends with the notification, with what it returned, and then the
  state write of \<open>circular_id\<close>, and holds no other notification or state write.
\<close>

definition notify_then_save :: "bool \<Rightarrow> string \<Rightarrow> call list \<Rightarrow> bool" where
  "notify_then_save sent circular_id cs =
     (case rev cs of
        [] \<Rightarrow> False
      | s # before \<Rightarrow>
          (case before of
             [] \<Rightarrow> False
           | n # earlier \<Rightarrow>
               s = Set_last_circular_id circular_id \<and> n = Send_gmail_api_email sent \<and>
               \<not> state_written earlier \<and> \<not> notified earlier))"

text \<open>
  What a run for the circular \<open>circular_id\<close> guarantees about the state file, given the
  files it started from: when it completes the state file holds \<open>circular_id\<close>, and
  otherwise the state file is as it was; a run that reaches the notification ends with
  the notification and then the state write, and completes unless the state file cannot
  be written; a run that does not reach it writes no state and does not complete.
\<close>

definition state_guarded :: "world \<Rightarrow> filesystem \<Rightarrow> string \<Rightarrow> run \<Rightarrow> bool" where
  "state_guarded w fs circular_id r =
     ((if exit r = Completed
       then files (final_fs r) LAST_CIRCULAR_FILE = Some circular_id
       else files (final_fs r) LAST_CIRCULAR_FILE = files fs LAST_CIRCULAR_FILE) \<and>
      (if state_written (calls r) \<or> notified (calls r)
       then notify_then_save (send_gmail_api_email w) circular_id (calls r) \<and>
            exit r = (if unwritable fs LAST_CIRCULAR_FILE then Unhandled_exception else Completed)
       else exit r \<noteq> Completed))"

text \<open>What a run leaves behind, without the record of its calls.\<close>

definition outcome :: "run \<Rightarrow> filesystem \<times> exit" where
  "outcome r = (final_fs r, exit r)"

text \<open>A success status in the words of HTTP: any status from 200 to 299.\<close>

definition http_success :: "nat \<Rightarrow> bool" where
  "http_success status = (200 \<le> status \<and> status < 300)"

text \<open>Only the third generated pattern of identifier 9998 answers with a PDF.\<close>

definition third_pattern_9998 :: "string \<Rightarrow> head_outcome" where
  "third_pattern_9998 u =
     (if u = ''https://rbidocs.rbi.org.in/rdocs/circulars/9998.pdf''
      then Head_response 200 (Some ''application/pdf'')
      else Head_response 404 None)"

definition archive_world :: world where
  "archive_world =
     offline_world\<lparr>browse := (\<lambda>u. Loaded plain_page), requests_head := third_pattern_9998\<rparr>"

text \<open>A detail page with a link that \<open>urljoin\<close> refuses.\<close>

definition malformed_page :: page where
  "malformed_page =
     \<lparr>page_source = Tag ''[document]'' [] [Tag ''a'' [(''href'', ''//[x.pdf'')] [NavigableString ''PDF'']],
      body_innerHTML = Some ''<a>PDF</a>''\<rparr>"

definition malformed_world :: world where
  "malformed_world =
     offline_world\<lparr>browse := (\<lambda>u. Loaded malformed_page), requests_head := pdf_everywhere\<rparr>"

text \<open>
  An index whose latest circular has a carriage return inside its number, in the world
  where every collaborator works.
\<close>

definition cr_number :: string where
  "cr_number = [CHR ''a'', CHR 0x0D, CHR ''b'']"

definition cr_index :: node where
  "cr_index =
     Tag ''[document]'' []
       [Tag ''table'' []
          [index_row ''BS_CircularIndexDisplay.aspx?Id=9999'' cr_number ''01.01.2025'' ''DOR''
             ''Guidelines on X'']]"

definition cr_world :: world where
  "cr_world =
     mail_down_world
       \<lparr>browse := (\<lambda>u. if u = BASE_PAGE
                        then Loaded \<lparr>page_source = cr_index, body_innerHTML = Some ''<table></table>''\<rparr>
                        else if u = detail_url then Loaded linked_page
                        else Load_raises),
        send_gmail_api_email := True\<rparr>"

section \<open>Properties\<close>

text \<open>
  C2, as amended. A candidate URL passes validation if and only if the header-only
  request returns the status 200 exactly, not any other success status, and a
  content-type header whose lower-cased value contains \<open>pdf\<close>; a request that raises
  (network error, timeout) makes the candidate invalid. In particular 200 with
  \<open>application/pdf\<close> is accepted, 200 with \<open>text/html\<close> and any 404 are rejected.
\<close>

theorem check_pdf_url_exists_iff:
  "(check_pdf_url_exists head url \<longleftrightarrow>
      (\<exists>ct. head url = Head_response 200 (Some ct) \<and> contains_str ''pdf'' (lower ct))) \<and>
   \<not> check_pdf_url_exists (\<lambda>u. Head_raises) url \<and>
   check_pdf_url_exists (\<lambda>u. Head_response 200 (Some ''application/pdf'')) url \<and>
   \<not> check_pdf_url_exists (\<lambda>u. Head_response 200 (Some ''text/html'')) url \<and>
   \<not> check_pdf_url_exists (\<lambda>u. Head_response 404 ct) url"
  by (auto simp: check_pdf_url_exists_def check_pdf_url_exists_log_def Let_def lower_def
      lower_char_def startswith_def split: head_outcome.splits option.splits)

text \<open>
  The statuses 204 and 206 are success statuses; with the content type
  \<open>application/pdf\<close> the candidate is rejected all the same.
\<close>

theorem success_status_206_counterexample:
  "http_success 206 \<and> http_success 204 \<and>
   contains_str ''pdf'' (lower ''application/pdf'') \<and>
   \<not> check_pdf_url_exists (\<lambda>u. Head_response 206 (Some ''application/pdf''))
       ''https://rbidocs.rbi.org.in/rdocs/content/pdfs/9999.pdf'' \<and>
   \<not> check_pdf_url_exists (\<lambda>u. Head_response 204 (Some ''application/pdf''))
       ''https://rbidocs.rbi.org.in/rdocs/content/pdfs/9999.pdf''"
  by code_simp

subsection \<open>The state store\<close>

lemma rstrip_prefix: "\<exists>ys. s = rstrip s @ ys"
proof -
  have "rev s = takeWhile isspace (rev s) @ dropWhile isspace (rev s)" by simp
  then have "s = rev (dropWhile isspace (rev s)) @ rev (takeWhile isspace (rev s))"
    by (metis rev_append rev_rev_ident)
  then show ?thesis unfolding rstrip_def by blast
qed

lemma lstrip_hd: "lstrip s \<noteq> [] \<Longrightarrow> \<not> isspace (hd (lstrip s))"
  unfolding lstrip_def by (metis hd_dropWhile)

lemma rstrip_last: "rstrip s \<noteq> [] \<Longrightarrow> \<not> isspace (last (rstrip s))"
  unfolding rstrip_def by (metis hd_dropWhile last_rev rev_is_Nil_conv)

lemma rstrip_hd: "rstrip s \<noteq> [] \<Longrightarrow> hd (rstrip s) = hd s"
  using rstrip_prefix [of s] by (metis hd_append2)

lemma strip_not_surrounded: "\<not> surrounding_whitespace (strip s)"
  unfolding surrounding_whitespace_def strip_def
  using lstrip_hd [of s] rstrip_last [of "lstrip s"] rstrip_hd [of "lstrip s"]
  by (metis rstrip_def dropWhile.simps(1) rev.simps(1))

lemma strip_id: "\<not> surrounding_whitespace s \<Longrightarrow> strip s = s"
proof (cases s)
  case Nil
  then show ?thesis by (simp add: strip_def lstrip_def rstrip_def)
next
  case (Cons a list)
  assume "\<not> surrounding_whitespace s"
  with Cons have h: "\<not> isspace (hd s)" and l: "\<not> isspace (last s)" and ne: "s \<noteq> []"
    by (auto simp: surrounding_whitespace_def)
  have 1: "lstrip s = s" using h ne by (simp add: lstrip_def dropWhile_eq_self_iff)
  have "dropWhile isspace (rev s) = rev s"
    using l ne by (simp add: dropWhile_eq_self_iff hd_rev)
  then have 2: "rstrip s = s" by (simp add: rstrip_def)
  show ?thesis by (simp add: strip_def 1 2)
qed

lemma universal_newlines_id: "CHR 0x0D \<notin> set s \<Longrightarrow> universal_newlines s = s"
  by (induction s rule: universal_newlines.induct) auto

lemma get_after_set:
  "set_last_circular_id fs cid = Inr fs' \<Longrightarrow>
     get_last_circular_id fs' = Some (strip (universal_newlines cid))"
  by (auto simp: set_last_circular_id_def write_text_def get_last_circular_id_def read_text_def
      split: if_splits)

text \<open>
  C10, as amended. When the state file does not exist, \<open>get_last_circular_id\<close> returns
  \<open>None\<close>. After \<open>set_last_circular_id\<close> has succeeded, \<open>get_last_circular_id\<close> returns
  the identifier with its line endings read in text mode (\<open>\r\n\<close> and \<open>\r\<close> become
  \<open>\n\<close>) and then stripped of leading and trailing whitespace: an identifier with no
  surrounding whitespace and no carriage return is returned as it was saved, and one with
  surrounding whitespace is not.
\<close>

theorem state_store_round_trip:
  "(files fs LAST_CIRCULAR_FILE = None \<longrightarrow> get_last_circular_id fs = None) \<and>
   (set_last_circular_id fs cid = Inr fs' \<longrightarrow>
      get_last_circular_id fs' = Some (strip (universal_newlines cid)) \<and>
      (\<not> surrounding_whitespace cid \<and> CHR 0x0D \<notin> set cid \<longrightarrow>
         get_last_circular_id fs' = Some cid) \<and>
      (surrounding_whitespace cid \<longrightarrow> get_last_circular_id fs' \<noteq> Some cid))"
proof -
  have a: "files fs LAST_CIRCULAR_FILE = None \<longrightarrow> get_last_circular_id fs = None"
    by (simp add: get_last_circular_id_def)
  have b: "get_last_circular_id fs' = Some cid"
    if "set_last_circular_id fs cid = Inr fs'" "\<not> surrounding_whitespace cid"
      "CHR 0x0D \<notin> set cid"
    using that by (simp add: get_after_set universal_newlines_id strip_id)
  have c: "get_last_circular_id fs' \<noteq> Some cid"
    if "set_last_circular_id fs cid = Inr fs'" "surrounding_whitespace cid"
    using that strip_not_surrounded [of "universal_newlines cid"]
    by (auto simp: get_after_set)
  show ?thesis using a b c get_after_set by blast
qed

theorem state_store_round_trip_witness:
  "get_last_circular_id empty_fs = None \<and>
   save_then_load empty_fs ''DOR.2025.01'' = Inr (Some ''DOR.2025.01'') \<and>
   save_then_load empty_fs '' DOR.2025.01'' = Inr (Some ''DOR.2025.01'')"
  using state_store_round_trip [of empty_fs "''DOR.2025.01''"
      "empty_fs\<lparr>files := (files empty_fs)(LAST_CIRCULAR_FILE \<mapsto> ''DOR.2025.01'')\<rparr>"]
    state_store_round_trip [of empty_fs "'' DOR.2025.01''"
      "empty_fs\<lparr>files := (files empty_fs)(LAST_CIRCULAR_FILE \<mapsto> '' DOR.2025.01'')\<rparr>"]
  by (simp add: save_then_load_def set_last_circular_id_def write_text_def empty_fs_def
      surrounding_whitespace_def isspace_def strip_def lstrip_def rstrip_def)

text \<open>
  The identifier \<open>a\rb\<close> has no surrounding whitespace, and stripping leaves it as it
  is, yet it is loaded back as \<open>a\nb\<close>.
\<close>

theorem state_store_carriage_return_counterexample:
  "\<not> surrounding_whitespace [CHR ''a'', CHR 0x0D, CHR ''b''] \<and>
   strip [CHR ''a'', CHR 0x0D, CHR ''b''] = [CHR ''a'', CHR 0x0D, CHR ''b''] \<and>
   save_then_load empty_fs [CHR ''a'', CHR 0x0D, CHR ''b'']
     = Inr (Some [CHR ''a'', CHR 0x0A, CHR ''b''])"
  by (simp add: save_then_load_def set_last_circular_id_def write_text_def empty_fs_def
      get_last_circular_id_def read_text_def
      surrounding_whitespace_def isspace_def strip_def lstrip_def rstrip_def)

subsection \<open>Local artifact names\<close>

lemma digit_char_spec: "n < 10 \<Longrightarrow> in_spec_charset (digit_char n)"
  by (simp add: in_spec_charset_def digit_char_def Let_def)

lemma dec_spec: "c \<in> set (dec n) \<Longrightarrow> in_spec_charset c"
proof (induction n rule: dec.induct)
  case (1 n)
  then show ?case
    by (subst (asm) (2) dec.simps) (auto simp: digit_char_spec split: if_splits)
qed

lemma pad2_spec: "c \<in> set (pad2 n) \<Longrightarrow> in_spec_charset c"
  by (auto simp: pad2_def in_spec_charset_def dest: dec_spec split: if_splits)

lemma strftime_stamp_spec: "c \<in> set (strftime_stamp t) \<Longrightarrow> in_spec_charset c"
  by (auto simp: strftime_stamp_def in_spec_charset_def dest: dec_spec pad2_spec)

lemma safe_name_ascii:
  "\<forall>c \<in> set s. is_ascii c \<Longrightarrow> c \<in> set (safe_name s) \<Longrightarrow> in_spec_charset c"
  by (auto simp: safe_name_def in_spec_charset_def is_ascii_def word_char_def isalnum_def Let_def
      split: if_splits)

lemma artifact_filename_spec:
  assumes "\<forall>c \<in> set s. is_ascii c" "\<forall>c \<in> set prefix. in_spec_charset c"
    "\<forall>c \<in> set ext. in_spec_charset c" "c \<in> set (artifact_filename prefix s (strftime_stamp t) ext)"
  shows "in_spec_charset c"
  using assms safe_name_ascii [of s c] strftime_stamp_spec [of c t]
  by (auto simp: artifact_filename_def in_spec_charset_def)

lemma artifact_filename_inj:
  assumes "artifact_filename p s1 t1 e = artifact_filename p s2 t2 e" "length t1 = length t2"
  shows "safe_name s1 = safe_name s2 \<and> t1 = t2"
proof -
  from assms(1) have "safe_name s1 @ ''_'' @ t1 = safe_name s2 @ ''_'' @ t2"
    by (simp add: artifact_filename_def)
  moreover from this have "length (safe_name s1 @ ''_'' @ t1) = length (safe_name s2 @ ''_'' @ t2)"
    by simp
  then have "length (safe_name s1) = length (safe_name s2)" using assms(2) by simp
  ultimately show ?thesis by simp
qed

lemma dec_length_1: "n < 10 \<Longrightarrow> length (dec n) = 1"
  by (simp add: dec.simps [of n])

lemma dec_length_Suc: "10 \<le> n \<Longrightarrow> length (dec n) = Suc (length (dec (n div 10)))"
  by (simp add: dec.simps [of n])

lemma dec_length_2: "10 \<le> n \<Longrightarrow> n < 100 \<Longrightarrow> length (dec n) = 2"
proof -
  assume a: "10 \<le> n" "n < 100"
  then have "n div 10 < 10" by arith
  then show ?thesis using a dec_length_Suc [of n] dec_length_1 [of "n div 10"] by simp
qed

lemma dec_length_3: "100 \<le> n \<Longrightarrow> n < 1000 \<Longrightarrow> length (dec n) = 3"
proof -
  assume a: "100 \<le> n" "n < 1000"
  then have "10 \<le> n div 10" "n div 10 < 100" by arith+
  then show ?thesis using a dec_length_Suc [of n] dec_length_2 [of "n div 10"] by simp
qed

lemma dec_length_4: "1000 \<le> n \<Longrightarrow> n < 10000 \<Longrightarrow> length (dec n) = 4"
proof -
  assume a: "1000 \<le> n" "n < 10000"
  then have "100 \<le> n div 10" "n div 10 < 1000" by arith+
  then show ?thesis using a dec_length_Suc [of n] dec_length_3 [of "n div 10"] by simp
qed

lemma pad2_length: "n < 100 \<Longrightarrow> length (pad2 n) = 2"
  by (cases "n < 10") (simp_all add: pad2_def dec_length_1 dec_length_2)

lemma strftime_stamp_length: "clock_time t \<Longrightarrow> length (strftime_stamp t) = 15"
  by (simp add: clock_time_def strftime_stamp_def dec_length_4 pad2_length)

text \<open>
  C8, as amended. The sanitized name keeps every word character of the regular expression
  class \<open>\w\<close> (a letter, digit or numeric character of any script, or \<open>_\<close>), every
  \<open>-\<close> and every \<open>.\<close>, and replaces every other character with \<open>_\<close>. For an
  ASCII circular number the names of the synthesized PDF, the synthesized HTML and the
  checklist contain no character outside \<open>[A-Za-z0-9_.-]\<close>. Two names with the same
  prefix and extension that are equal have the same sanitized name and the same timestamp
  (for clock readings with a four-digit year).
\<close>

theorem safe_name_charset:
  "length (safe_name s) = length s \<and>
   (\<forall>i < length s. safe_name s ! i =
      (if word_char (s ! i) \<or> s ! i = CHR ''-'' \<or> s ! i = CHR ''.'' then s ! i else CHR ''_'')) \<and>
   ((\<forall>c \<in> set s. is_ascii c) \<longrightarrow>
      (\<forall>c \<in> set (synthesized_pdf_filename s now). in_spec_charset c) \<and>
      (\<forall>c \<in> set (synthesized_html_filename s now). in_spec_charset c) \<and>
      (\<forall>c \<in> set (checklist_filename s now). in_spec_charset c)) \<and>
   (clock_time t1 \<and> clock_time t2 \<and>
    artifact_filename prefix s1 (strftime_stamp t1) ext =
      artifact_filename prefix s2 (strftime_stamp t2) ext \<longrightarrow>
      safe_name s1 = safe_name s2 \<and> strftime_stamp t1 = strftime_stamp t2)"
proof -
  have a: "length (safe_name s) = length s" by (simp add: safe_name_def)
  have b: "\<forall>i < length s. safe_name s ! i =
      (if word_char (s ! i) \<or> s ! i = CHR ''-'' \<or> s ! i = CHR ''.'' then s ! i else CHR ''_'')"
    by (auto simp: safe_name_def word_char_def)
  have c: "in_spec_charset c"
    if "\<forall>c \<in> set s. is_ascii c" "c \<in> set (artifact_filename p s (strftime_stamp now) e)"
      "\<forall>c \<in> set p. in_spec_charset c" "\<forall>c \<in> set e. in_spec_charset c" for c p e
    using that artifact_filename_spec by blast
  have p1: "\<forall>c \<in> set ''RBI_Circular_''. in_spec_charset c"
    and p2: "\<forall>c \<in> set ''RBI_Checklist_''. in_spec_charset c"
    and e1: "\<forall>c \<in> set ''.pdf''. in_spec_charset c"
    and e2: "\<forall>c \<in> set ''.html''. in_spec_charset c"
    and e3: "\<forall>c \<in> set ''.txt''. in_spec_charset c"
    by (simp_all add: in_spec_charset_def)
  have d: "safe_name s1 = safe_name s2 \<and> strftime_stamp t1 = strftime_stamp t2"
    if "clock_time t1" "clock_time t2"
      "artifact_filename prefix s1 (strftime_stamp t1) ext =
       artifact_filename prefix s2 (strftime_stamp t2) ext"
    using that artifact_filename_inj [of prefix s1 "strftime_stamp t1" ext s2 "strftime_stamp t2"]
    by (simp add: strftime_stamp_length)
  show ?thesis
    unfolding synthesized_pdf_filename_def synthesized_html_filename_def checklist_filename_def
    using a b c p1 p2 e1 e2 e3 d by blast
qed

theorem safe_name_charset_witness:
  "clock_time sample_time \<and>
   safe_name ''DOR.CO.45/2024-25'' = ''DOR.CO.45_2024-25'' \<and>
   checklist_filename ''DOR.CO.45/2024-25'' sample_time
     = ''RBI_Checklist_DOR.CO.45_2024-25_20250102_030405.txt'' \<and>
   list_all in_spec_charset (checklist_filename ''DOR.CO.45/2024-25'' sample_time) \<and>
   list_all in_spec_charset (synthesized_pdf_filename ''DOR.CO.45/2024-25'' sample_time) \<and>
   list_all in_spec_charset (synthesized_html_filename ''DOR.CO.45/2024-25'' sample_time)"
proof -
  have asc: "\<forall>c \<in> set ''DOR.CO.45/2024-25''. is_ascii c" by (simp add: is_ascii_def)
  have 0: "clock_time sample_time" by (simp add: clock_time_def sample_time_def)
  have 1: "safe_name ''DOR.CO.45/2024-25'' = ''DOR.CO.45_2024-25''" by code_simp
  have 2: "checklist_filename ''DOR.CO.45/2024-25'' sample_time
     = ''RBI_Checklist_DOR.CO.45_2024-25_20250102_030405.txt''" by code_simp
  note 3 = safe_name_charset [where s = "''DOR.CO.45/2024-25''" and now = sample_time,
      THEN conjunct2, THEN conjunct2, THEN conjunct1, THEN mp, OF asc]
  show ?thesis
    unfolding list_all_iff using 0 1 2 3 by blast
qed

text \<open>
  The letter \<open>e\<close> with an acute accent (code point 233) is a word character: it is
  kept, and it is outside \<open>[A-Za-z0-9_.-]\<close>. The circular numbers \<open>A/B\<close> and
  \<open>A B\<close> get the same name at the same clock reading.
\<close>

theorem safe_name_counterexample:
  "safe_name [CHR 0xE9] = [CHR 0xE9] \<and> \<not> in_spec_charset (CHR 0xE9) \<and>
   ''A/B'' \<noteq> ''A B'' \<and>
   checklist_filename ''A/B'' sample_time = checklist_filename ''A B'' sample_time"
  by (simp add: safe_name_def word_char_def isalnum_def in_spec_charset_def
      checklist_filename_def artifact_filename_def)

subsection \<open>The index parser\<close>

lemma parse_row_append: "parse_row acc row = acc @ parse_row [] row"
  by (simp add: parse_row_def Let_def split: option.splits)

lemma parse_row_length: "length (parse_row [] row) = (if accepted_row row then 1 else 0)"
proof (cases "find_all [''td'', ''th''] row")
  case Nil
  then show ?thesis by (simp add: parse_row_def accepted_row_def)
next
  case (Cons c cs)
  then show ?thesis
    by (simp add: parse_row_def accepted_row_def Let_def split: option.splits)
qed

lemma parse_rows_concat: "parse_rows acc rows = acc @ concat (map (parse_row []) rows)"
proof (induction rows arbitrary: acc)
  case Nil
  show ?case by simp
next
  case (Cons row rows)
  show ?case using Cons [of "parse_row acc row"] parse_row_append [of acc row] by simp
qed

lemma parse_tables_concat:
  "parse_tables acc tables =
     acc @ concat (map (parse_row []) (concat (map (find_all [''tr'']) tables)))"
proof (induction tables arbitrary: acc)
  case Nil
  show ?case by simp
next
  case (Cons t ts)
  show ?case
    using Cons [of "parse_rows acc (find_all [''tr''] t)"] parse_rows_concat [of acc "find_all [''tr''] t"]
    by simp
qed

lemma rows_within_True:
  "rows_within True nd = filter (is_tag [''tr'']) (nd # descendants nd)"
proof (induction nd)
  case (Tag name attrs contents)
  have eq: "map (rows_within True) contents
      = map (\<lambda>c. filter (is_tag [''tr'']) (c # descendants c)) contents"
    by (rule map_cong [OF refl]) (rule Tag)
  have 1: "rows_within True (Tag name attrs contents)
      = (if name = ''tr'' then [Tag name attrs contents] else []) @
        concat (map (rows_within True) contents)"
    by simp
  have 2: "filter (is_tag [''tr'']) (Tag name attrs contents # descendants (Tag name attrs contents))
      = (if name = ''tr'' then [Tag name attrs contents] else []) @
        filter (is_tag [''tr'']) (descendants (Tag name attrs contents))"
    by (simp del: descendants.simps)
  have 3: "filter (is_tag [''tr'']) (descendants (Tag name attrs contents))
      = concat (map (\<lambda>c. filter (is_tag [''tr'']) (c # descendants c)) contents)"
    by (simp only: descendants.simps filter_concat map_map comp_def)
  show ?case by (simp only: 1 2 3 eq)
next
  case (NavigableString s)
  show ?case by simp
qed

lemma visited_concat: "visited (concat xss) = concat (map visited xss)"
  by (induction xss) (simp_all add: visited_def)

lemma visited_Cons:
  "visited (d # ds) = (if is_tag [''table''] d then find_all [''tr''] d else []) @ visited ds"
  by (simp add: visited_def)

lemma visited_descendants:
  "visited (descendants (Tag name attrs contents))
     = concat (map (\<lambda>c. visited (c # descendants c)) contents)"
  by (simp only: descendants.simps visited_concat map_map comp_def)

lemma list_all_filter_mono:
  "set xs \<subseteq> set ys \<Longrightarrow> list_all Q (filter P ys) \<Longrightarrow> list_all Q (filter P xs)"
  by (auto simp: list_all_iff)

lemma rows_within_False:
  "list_all (\<lambda>t. find_all [''table''] t = []) (filter (is_tag [''table'']) (nd # descendants nd)) \<Longrightarrow>
   visited (nd # descendants nd) = rows_within False nd"
proof (induction nd)
  case (Tag name attrs contents)
  let ?nd = "Tag name attrs contents"
  show ?case
  proof (cases "name = ''table''")
    case True
    with Tag.prems have none: "filter (is_tag [''table'']) (descendants ?nd) = []"
      by (simp add: find_all_def del: descendants.simps)
    have "visited (?nd # descendants ?nd) = find_all [''tr''] ?nd"
      using True none by (simp add: visited_def del: descendants.simps)
    also have "\<dots> = concat (map (\<lambda>c. filter (is_tag [''tr'']) (c # descendants c)) contents)"
      by (simp only: find_all_def descendants.simps filter_concat map_map comp_def)
    also have "\<dots> = concat (map (rows_within True) contents)"
      by (simp only: rows_within_True [symmetric])
    also have "\<dots> = rows_within False ?nd"
      using True by simp
    finally show ?thesis .
  next
    case False
    have sub: "list_all (\<lambda>t. find_all [''table''] t = []) (filter (is_tag [''table'']) (c # descendants c))"
      if "c \<in> set contents" for c
    proof -
      have "set (c # descendants c) \<subseteq> set (?nd # descendants ?nd)"
        using that by auto
      then show ?thesis using Tag.prems by (rule list_all_filter_mono)
    qed
    have eq: "map (\<lambda>c. visited (c # descendants c)) contents = map (rows_within False) contents"
      by (rule map_cong [OF refl]) (rule Tag.IH [OF _ sub], assumption+)
    have "visited (?nd # descendants ?nd) = visited (descendants ?nd)"
      using False by (simp add: visited_Cons del: descendants.simps)
    also have "\<dots> = concat (map (rows_within False) contents)"
      by (simp only: visited_descendants eq)
    also have "\<dots> = rows_within False ?nd"
      using False by simp
    finally show ?thesis .
  qed
next
  case (NavigableString s)
  show ?case by (simp add: visited_def)
qed

lemma parse_circulars_table_visited:
  "parse_circulars_table soup = concat (map (parse_row []) (visited (descendants soup)))"
  by (simp add: parse_circulars_table_def parse_tables_concat visited_def find_all_def)

lemma visited_table_rows:
  assumes "no_nested_tables soup"
  shows "visited (descendants soup) = table_rows soup"
proof (cases soup)
  case (Tag name attrs contents)
  have sub: "list_all (\<lambda>t. find_all [''table''] t = []) (filter (is_tag [''table'']) (c # descendants c))"
    if "c \<in> set contents" for c
  proof -
    have "set (c # descendants c) \<subseteq> set (descendants soup)"
      using that Tag by auto
    moreover have "list_all (\<lambda>t. find_all [''table''] t = []) (filter (is_tag [''table'']) (descendants soup))"
      using assms by (simp add: no_nested_tables_def find_all_def)
    ultimately show ?thesis by (rule list_all_filter_mono)
  qed
  have eq: "map (\<lambda>c. visited (c # descendants c)) contents = map (rows_within False) contents"
    by (rule map_cong [OF refl]) (rule rows_within_False [OF sub])
  show ?thesis
    unfolding Tag by (simp only: visited_descendants eq table_rows.simps)
next
  case (NavigableString s)
  then show ?thesis by (simp add: visited_def)
qed

lemma concat_map_filter_length:
  assumes "\<And>x. length (f x) = (if P x then 1 else 0)"
  shows "concat (map f xs) = concat (map f (filter P xs)) \<and>
         length (concat (map f xs)) = length (filter P xs)"
proof (induction xs)
  case Nil
  show ?case by simp
next
  case (Cons x xs)
  then show ?case using assms [of x] by (cases "P x") auto
qed

text \<open>
  C3, as amended. On a page where no table lies inside another table, the parser returns
  exactly one summary for each row that has at least 4 cells and whose first cell's first
  hyperlink (its first \<open>a\<close> element with an \<open>href\<close>) matches the detail-page pattern,
  in the document order of the rows; every other row contributes nothing and does not
  shift the others. The parser is a total function: it returns a possibly empty list for
  every page.
\<close>

theorem parse_circulars_table_rows:
  "no_nested_tables soup \<Longrightarrow>
     parse_circulars_table soup
       = concat (map (parse_row []) (filter accepted_row (table_rows soup))) \<and>
     length (parse_circulars_table soup) = length (filter accepted_row (table_rows soup)) \<and>
     (\<forall>row. length (parse_row [] row) = (if accepted_row row then 1 else 0))"
proof -
  assume nn: "no_nested_tables soup"
  have e: "parse_circulars_table soup = concat (map (parse_row []) (table_rows soup))"
    by (simp only: parse_circulars_table_visited visited_table_rows [OF nn])
  have "concat (map (parse_row []) (table_rows soup))
          = concat (map (parse_row []) (filter accepted_row (table_rows soup))) \<and>
        length (concat (map (parse_row []) (table_rows soup)))
          = length (filter accepted_row (table_rows soup))"
    by (rule concat_map_filter_length) (rule parse_row_length)
  then show ?thesis unfolding e using parse_row_length by blast
qed

theorem parse_circulars_table_rows_witness:
  "no_nested_tables sample_index \<and>
   map accepted_row (table_rows sample_index) = [False, True, False, True] \<and>
   map circular_number (parse_circulars_table sample_index) = [''DOR.2025.02'', ''DOR.2025.01''] \<and>
   length (parse_circulars_table sample_index) = length (filter accepted_row (table_rows sample_index))"
proof -
  have 1: "no_nested_tables sample_index" by code_simp
  have 2: "map accepted_row (table_rows sample_index) = [False, True, False, True]" by code_simp
  have 3: "map circular_number (parse_circulars_table sample_index)
      = [''DOR.2025.02'', ''DOR.2025.01'']" by code_simp
  show ?thesis using parse_circulars_table_rows [OF 1] 1 2 3 by blast
qed

text \<open>
  On the page with a layout table there is one well-formed row and the parser returns two
  summaries, since the row is found below the outer table and below the inner one. The
  row with two links in its first cell is well-formed, and the parser drops it.
\<close>

theorem parse_circulars_table_nested_counterexample:
  "length (filter well_formed_row (table_rows nested_index)) = 1 \<and>
   length (parse_circulars_table nested_index) = 2 \<and>
   table_rows two_links_index = [two_links_row] \<and> well_formed_row two_links_row \<and>
   parse_circulars_table two_links_index = []"
  by code_simp

lemma contains_str_iff: "contains_str sub s \<longleftrightarrow> (\<exists>xs ys. s = xs @ sub @ ys)"
proof (induction s)
  case Nil
  show ?case by simp
next
  case (Cons c cs)
  have sw: "startswith (c # cs) sub \<longleftrightarrow> (\<exists>ys. c # cs = sub @ ys)"
    unfolding startswith_def by (metis append_eq_conv_conj append_take_drop_id)
  show ?case
  proof
    assume "contains_str sub (c # cs)"
    then consider "startswith (c # cs) sub" | "contains_str sub cs" by auto
    then show "\<exists>xs ys. c # cs = xs @ sub @ ys"
    proof cases
      case 1
      then obtain ys where "c # cs = sub @ ys" using sw by blast
      then have "c # cs = [] @ sub @ ys" by simp
      then show ?thesis by blast
    next
      case 2
      then obtain xs ys where "cs = xs @ sub @ ys" using Cons by blast
      then have "c # cs = (c # xs) @ sub @ ys" by simp
      then show ?thesis by blast
    qed
  next
    assume "\<exists>xs ys. c # cs = xs @ sub @ ys"
    then obtain xs ys where e: "c # cs = xs @ sub @ ys" by blast
    show "contains_str sub (c # cs)"
    proof (cases xs)
      case Nil
      with e have "c # cs = sub @ ys" by simp
      then have "startswith (c # cs) sub" using sw by blast
      then show ?thesis by simp
    next
      case (Cons x xs')
      with e have "cs = xs' @ sub @ ys" by simp
      then show ?thesis using Cons.IH by auto
    qed
  qed
qed

lemma contains_str_suffix: "contains_str (a @ b) s \<Longrightarrow> contains_str b s"
  unfolding contains_str_iff by (metis append.assoc)

lemma last_concat_nonspace:
  "ps \<noteq> [] \<Longrightarrow> \<forall>p \<in> set ps. p \<noteq> [] \<and> \<not> isspace (last p) \<Longrightarrow>
     \<not> isspace (last (concat ps))"
  by (induction ps) (auto simp: last_append)

lemma get_text_strip_not_surrounded: "\<not> surrounding_whitespace (get_text_strip nd)"
proof -
  let ?ps = "filter (\<lambda>s. s \<noteq> []) (map strip (strings (descendants nd)))"
  have each: "\<forall>p \<in> set ?ps. p \<noteq> [] \<and> \<not> isspace (hd p) \<and> \<not> isspace (last p)"
    using strip_not_surrounded by (auto simp: surrounding_whitespace_def)
  show ?thesis
  proof (cases "?ps = []")
    case True
    then show ?thesis by (simp add: get_text_strip_def surrounding_whitespace_def)
  next
    case False
    then have "hd ?ps \<in> set ?ps" by (rule hd_in_set)
    with each have "hd ?ps \<noteq> []" "\<not> isspace (hd (hd ?ps))" by blast+
    then have h: "\<not> isspace (hd (concat ?ps))" using False by (simp add: hd_concat)
    have l: "\<not> isspace (last (concat ?ps))"
      using False each by (intro last_concat_nonspace) blast+
    show ?thesis using h l by (simp add: get_text_strip_def surrounding_whitespace_def)
  qed
qed

lemma parse_row_invariant:
  "c \<in> set (parse_row [] row) \<Longrightarrow>
     contains_str DETAIL_PATTERN (href c) \<and> \<not> surrounding_whitespace (circular_number c)"
  by (auto simp: parse_row_def Let_def get_text_strip_not_surrounded split: if_splits option.splits)

text \<open>
  C7, as amended. The \<open>href\<close> of every summary the parser returns contains the
  detail-page pattern, hence an \<open>Id=\<close> query parameter; its circular number is the text
  of the link, stripped, with no leading or trailing whitespace. It can be empty.
\<close>

theorem parsed_circular_invariant:
  "c \<in> set (parse_circulars_table soup) \<Longrightarrow>
     contains_str DETAIL_PATTERN (href c) \<and> contains_str ''Id='' (href c) \<and>
     \<not> surrounding_whitespace (circular_number c)"
proof -
  assume "c \<in> set (parse_circulars_table soup)"
  then obtain row where "c \<in> set (parse_row [] row)"
    by (auto simp: parse_circulars_table_visited)
  then have a: "contains_str DETAIL_PATTERN (href c)"
    and b: "\<not> surrounding_whitespace (circular_number c)"
    using parse_row_invariant by blast+
  have "DETAIL_PATTERN = ''BS_CircularIndexDisplay.aspx?'' @ ''Id=''"
    by (simp add: DETAIL_PATTERN_def)
  with a have "contains_str ''Id='' (href c)" using contains_str_suffix by metis
  with a b show ?thesis by blast
qed

theorem parsed_circular_invariant_witness:
  "map href (parse_circulars_table sample_index)
     = [''BS_CircularIndexDisplay.aspx?Id=9999'', ''BS_CircularIndexDisplay.aspx?Id=9998''] \<and>
   list_all (\<lambda>c. contains_str ''Id='' (href c) \<and> \<not> surrounding_whitespace (circular_number c))
     (parse_circulars_table sample_index)"
proof -
  have 1: "map href (parse_circulars_table sample_index)
     = [''BS_CircularIndexDisplay.aspx?Id=9999'', ''BS_CircularIndexDisplay.aspx?Id=9998'']"
    by code_simp
  show ?thesis using parsed_circular_invariant [of _ sample_index] 1
    unfolding list_all_iff by blast
qed

text \<open>A detail link whose text is blank gives a summary with an empty circular number.\<close>

theorem parsed_circular_number_empty_counterexample:
  "map circular_number (parse_circulars_table untitled_index) = [[]]"
  by code_simp

subsection \<open>The artifact resolver\<close>

lemma split_from_nonempty: "split_from sep acc s \<noteq> []"
  by (induction sep acc s rule: split_from.induct) simp_all

lemma split_from_length: "sep \<noteq> [] \<Longrightarrow> contains_str sep s \<Longrightarrow> 2 \<le> length (split_from sep acc s)"
proof (induction sep acc s rule: split_from.induct)
  case (1 sep acc)
  then show ?case by simp
next
  case (2 sep acc c cs)
  show ?case
  proof (cases "startswith (c # cs) sep")
    case True
    have "1 \<le> length (split_from sep [] (drop (length sep - 1) cs))"
      using split_from_nonempty [of sep "[]" "drop (length sep - 1) cs"]
      by (simp add: Suc_leI)
    with True show ?thesis by simp
  next
    case False
    with 2 show ?thesis by simp
  qed
qed

lemma extract_circular_id_no_error: "extract_circular_id url \<noteq> Inl e"
proof (cases "contains_str ''?Id='' url")
  case True
  then have 1: "2 \<le> length (split url ''?Id='')"
    unfolding split_def by (intro split_from_length) simp_all
  have 2: "0 < length (split r ''&'')" for r
    using split_from_nonempty [of "''&''" "[]" r] by (simp add: split_def)
  show ?thesis using True 1 2 by (simp add: extract_circular_id_def index_def)
next
  case False
  then show ?thesis by (simp add: extract_circular_id_def)
qed

lemma try_generated_find:
  "try_generated h acc urls =
     (case List.find (check_pdf_url_exists h) urls of None \<Rightarrow> acc | Some u \<Rightarrow> acc @ [u])"
  by (induction urls) simp_all

lemma list_of_set_single: "list_of_set k [u] = [u]"
  by (simp add: list_of_set_def rotate_length01)

lemma resolver_after_scans:
  assumes "browse w url = Loaded pg" "scanned_links w url (page_source pg) = Inr []"
    "extract_circular_id url = Inr circular_id"
  shows "get_pdf_from_circular_page w url =
     (case (case circular_id of None \<Rightarrow> None
            | Some cid \<Rightarrow> if cid \<noteq> [] then List.find (check_pdf_url_exists (requests_head w))
                 (generate_pdf_from_circular_id cid) else None) of
        None \<Rightarrow> html_only pg
      | Some u \<Rightarrow> (Some u, None))"
  using assms
  by (simp add: get_pdf_from_circular_page_def try_generated_find html_only_def
      list_of_set_single split: option.splits)

text \<open>
  C4. On a detail page that has rendered, whose body can be read and whose two scans have
  ended with no validated candidate: when an identifier is parsed from the detail URL,
  the resolver makes 3 URLs from it (the identifier put into the three patterns, in this
  order), and its result is the first of them, in that order, that validates; when none
  validates, or when the URL has no identifier (no \<open>?Id=\<close>, or an empty one), its result
  is \<open>HTML_ONLY\<close> with the inner markup of the body.
\<close>

theorem resolver_fallback:
  "browse w url = Loaded pg \<and> scanned_links w url (page_source pg) = Inr [] \<and>
   body_innerHTML pg = Some body \<longrightarrow>
     (extract_circular_id url = Inr (Some cid) \<and> cid \<noteq> [] \<longrightarrow>
        generate_pdf_from_circular_id cid =
          [''https://rbidocs.rbi.org.in/rdocs/content/pdfs/'' @ cid @ ''.pdf'',
           ''https://www.rbi.org.in/Scripts/BS_PressReleaseDisplay.aspx?prid='' @ cid,
           ''https://rbidocs.rbi.org.in/rdocs/circulars/'' @ cid @ ''.pdf''] \<and>
        length (generate_pdf_from_circular_id cid) \<le> 3 \<and>
        get_pdf_from_circular_page w url =
          (case List.find (check_pdf_url_exists (requests_head w))
                  (generate_pdf_from_circular_id cid) of
             Some u \<Rightarrow> (Some u, None)
           | None \<Rightarrow> (Some ''HTML_ONLY'', Some body))) \<and>
     (extract_circular_id url = Inr None \<or> extract_circular_id url = Inr (Some []) \<longrightarrow>
        get_pdf_from_circular_page w url = (Some ''HTML_ONLY'', Some body))"
proof -
  have a: "get_pdf_from_circular_page w url =
          (case List.find (check_pdf_url_exists (requests_head w))
                  (generate_pdf_from_circular_id cid) of
             Some u \<Rightarrow> (Some u, None)
           | None \<Rightarrow> (Some ''HTML_ONLY'', Some body))"
    if "browse w url = Loaded pg" "scanned_links w url (page_source pg) = Inr []"
      "body_innerHTML pg = Some body" "extract_circular_id url = Inr (Some cid)" "cid \<noteq> []"
    using resolver_after_scans [OF that(1,2,4)] that(3,5)
    by (simp add: html_only_def split: option.splits)
  have b: "get_pdf_from_circular_page w url = (Some ''HTML_ONLY'', Some body)"
    if "browse w url = Loaded pg" "scanned_links w url (page_source pg) = Inr []"
      "body_innerHTML pg = Some body"
      "extract_circular_id url = Inr None \<or> extract_circular_id url = Inr (Some [])"
    using that(4)
  proof
    assume e: "extract_circular_id url = Inr None"
    show ?thesis using resolver_after_scans [OF that(1,2) e] that(3) by (simp add: html_only_def)
  next
    assume e: "extract_circular_id url = Inr (Some [])"
    show ?thesis using resolver_after_scans [OF that(1,2) e] that(3) by (simp add: html_only_def)
  qed
  have c: "generate_pdf_from_circular_id cid =
          [''https://rbidocs.rbi.org.in/rdocs/content/pdfs/'' @ cid @ ''.pdf'',
           ''https://www.rbi.org.in/Scripts/BS_PressReleaseDisplay.aspx?prid='' @ cid,
           ''https://rbidocs.rbi.org.in/rdocs/circulars/'' @ cid @ ''.pdf'']"
    by (simp add: generate_pdf_from_circular_id_def)
  have d: "length (generate_pdf_from_circular_id cid) \<le> 3"
    by (simp add: generate_pdf_from_circular_id_def)
  show ?thesis using a b c d by blast
qed

theorem resolver_fallback_witness:
  "get_pdf_from_circular_page fallback_world detail_url
     = (Some ''https://www.rbi.org.in/Scripts/BS_PressReleaseDisplay.aspx?prid=9999'', None) \<and>
   get_pdf_from_circular_page archive_world
       ''https://rbi.org.in/Scripts/BS_CircularIndexDisplay.aspx?Id=9998&x=1''
     = (Some ''https://rbidocs.rbi.org.in/rdocs/circulars/9998.pdf'', None) \<and>
   get_pdf_from_circular_page unanswered_world detail_url
     = (Some ''HTML_ONLY'', Some ''<p>Guidelines on X</p>'') \<and>
   get_pdf_from_circular_page generous_world BASE_PAGE
     = (Some ''HTML_ONLY'', Some ''<p>Guidelines on X</p>'')"
proof -
  let ?url4 = "''https://rbi.org.in/Scripts/BS_CircularIndexDisplay.aspx?Id=9998&x=1''"
  have l1: "browse fallback_world detail_url = Loaded plain_page"
    and l2: "browse unanswered_world detail_url = Loaded plain_page"
    and l3: "browse generous_world BASE_PAGE = Loaded plain_page"
    and l4: "browse archive_world ?url4 = Loaded plain_page"
    by (simp_all add: fallback_world_def unanswered_world_def generous_world_def
        archive_world_def)
  have s1: "scanned_links fallback_world detail_url (page_source plain_page) = Inr []"
    and s2: "scanned_links unanswered_world detail_url (page_source plain_page) = Inr []"
    and s3: "scanned_links generous_world BASE_PAGE (page_source plain_page) = Inr []"
    and s4: "scanned_links archive_world ?url4 (page_source plain_page) = Inr []"
    by code_simp+
  have b: "body_innerHTML plain_page = Some ''<p>Guidelines on X</p>''"
    by (simp add: plain_page_def)
  have e1: "extract_circular_id detail_url = Inr (Some ''9999'')" by code_simp
  have e3: "extract_circular_id BASE_PAGE = Inr None" by code_simp
  have e4: "extract_circular_id ?url4 = Inr (Some ''9998'')" by code_simp
  have f1: "List.find (check_pdf_url_exists (requests_head fallback_world))
              (generate_pdf_from_circular_id ''9999'')
            = Some ''https://www.rbi.org.in/Scripts/BS_PressReleaseDisplay.aspx?prid=9999''"
    by code_simp
  have f2: "List.find (check_pdf_url_exists (requests_head unanswered_world))
              (generate_pdf_from_circular_id ''9999'') = None"
    by code_simp
  have f4: "List.find (check_pdf_url_exists (requests_head archive_world))
              (generate_pdf_from_circular_id ''9998'')
            = Some ''https://rbidocs.rbi.org.in/rdocs/circulars/9998.pdf''"
    by code_simp
  have r1: "get_pdf_from_circular_page fallback_world detail_url
     = (Some ''https://www.rbi.org.in/Scripts/BS_PressReleaseDisplay.aspx?prid=9999'', None)"
    using resolver_fallback [of fallback_world detail_url plain_page
        "''<p>Guidelines on X</p>''" "''9999''"] l1 s1 b e1 f1
    by simp
  have r2: "get_pdf_from_circular_page unanswered_world detail_url
     = (Some ''HTML_ONLY'', Some ''<p>Guidelines on X</p>'')"
    using resolver_fallback [of unanswered_world detail_url plain_page
        "''<p>Guidelines on X</p>''" "''9999''"] l2 s2 b e1 f2
    by simp
  have r3: "get_pdf_from_circular_page generous_world BASE_PAGE
     = (Some ''HTML_ONLY'', Some ''<p>Guidelines on X</p>'')"
    using resolver_fallback [of generous_world BASE_PAGE plain_page
        "''<p>Guidelines on X</p>''" "''9999''"] l3 s3 b e3
    by simp
  have r4: "get_pdf_from_circular_page archive_world ?url4
     = (Some ''https://rbidocs.rbi.org.in/rdocs/circulars/9998.pdf'', None)"
    using resolver_fallback [of archive_world ?url4 plain_page
        "''<p>Guidelines on X</p>''" "''9998''"] l4 s4 b e4 f4
    by simp
  show ?thesis using r1 r2 r3 r4 by blast
qed

text \<open>
  When \<open>urljoin\<close> raises on a reference of the page, the resolver leaves through its
  handler: no fallback, no \<open>HTML_ONLY\<close>.
\<close>

lemma resolver_urljoin_raises:
  "scanned_links malformed_world detail_url (page_source malformed_page) = Inl ValueError \<and>
   get_pdf_from_circular_page malformed_world detail_url = (None, None)"
  by code_simp

lemma scan_links_filter:
  "scan_links hr uj url acc hrefs = scan_links hr uj url acc (filter (\<lambda>h. \<not> marked h) hrefs)"
  by (induction hrefs arbitrary: acc) (simp_all add: marked_def split: option.splits)

lemma scan_embeds_filter:
  "scan_embeds hr uj url acc tags
     = scan_embeds hr uj url acc (filter (\<lambda>t. \<not> marked_embed t) tags)"
  by (induction tags arbitrary: acc) (simp_all add: marked_def marked_embed_def split: option.splits)

lemma scan_links_set:
  "scan_links hr uj url acc hrefs = Inr links \<Longrightarrow> u \<in> set links \<Longrightarrow>
     u \<in> set acc \<or> (\<exists>h \<in> set hrefs. \<not> marked h \<and> uj url h = Some u)"
proof (induction hrefs arbitrary: acc)
  case Nil
  then show ?case by simp
next
  case (Cons h hrefs)
  show ?case
  proof (cases "endswith (lower h) ''.pdf'' \<and> \<not> marked h")
    case False
    then have "scan_links hr uj url acc hrefs = Inr links"
      using Cons.prems(1) by (auto simp: marked_def)
    from Cons.IH [OF this Cons.prems(2)] show ?thesis by auto
  next
    case True
    then obtain full where j: "uj url h = Some full"
      and r: "scan_links hr uj url
                (if check_pdf_url_exists hr full then acc @ [full] else acc) hrefs = Inr links"
      using Cons.prems(1) by (auto simp: marked_def split: option.splits)
    from Cons.IH [OF r Cons.prems(2)] True j show ?thesis
      by (auto split: if_splits)
  qed
qed

lemma scan_embeds_set:
  "scan_embeds hr uj url acc tags = Inr links \<Longrightarrow> u \<in> set links \<Longrightarrow>
     u \<in> set acc \<or>
     (\<exists>t \<in> set tags. \<exists>src. src_or_data t = Some src \<and> \<not> marked src \<and> uj url src = Some u)"
proof (induction tags arbitrary: acc)
  case Nil
  then show ?case by simp
next
  case (Cons t tags)
  show ?case
  proof (cases "\<exists>src. src_or_data t = Some src \<and> src \<noteq> [] \<and>
      contains_str ''.pdf'' (lower src) \<and> \<not> marked src")
    case False
    then have "scan_embeds hr uj url acc tags = Inr links"
      using Cons.prems(1) by (auto simp: marked_def split: option.splits if_splits)
    from Cons.IH [OF this Cons.prems(2)] show ?thesis by auto
  next
    case True
    then obtain src where s: "src_or_data t = Some src" "\<not> marked src" "src \<noteq> []"
      "contains_str ''.pdf'' (lower src)" by blast
    then obtain full where j: "uj url src = Some full"
      and r: "scan_embeds hr uj url
                (if check_pdf_url_exists hr full then acc @ [full] else acc) tags = Inr links"
      using Cons.prems(1) by (auto simp: marked_def split: option.splits)
    from Cons.IH [OF r Cons.prems(2)] s j show ?thesis
      by (auto split: if_splits)
  qed
qed

text \<open>
  C5, as amended. In the hyperlink scan and in the scan of the \<open>object\<close>, \<open>iframe\<close>
  and \<open>embed\<close> elements, a reference whose lower-cased text (the \<open>href\<close>, or the
  \<open>src\<close> or \<open>data\<close>, as the page writes it) contains the marker \<open>utkarsh\<close> is left
  out before it is validated: whatever the network answers, each scan does what it would
  do without the marked references, and every candidate of the two scans is the absolute
  form of an unmarked reference. The URLs generated from the identifier are not tested
  for the marker.
\<close>

theorem marker_exclusion:
  "scan_links hr uj url acc hrefs = scan_links hr uj url acc (filter (\<lambda>h. \<not> marked h) hrefs) \<and>
   scan_embeds hr uj url acc tags
     = scan_embeds hr uj url acc (filter (\<lambda>t. \<not> marked_embed t) tags) \<and>
   (\<forall>links. scanned_links w url soup = Inr links \<longrightarrow>
      (\<forall>u \<in> set links.
         \<exists>ref. \<not> marked ref \<and> urljoin w url ref = Some u \<and>
           (ref \<in> set (hrefs_of soup) \<or>
            (\<exists>t \<in> set (find_all [''object'', ''iframe'', ''embed''] soup).
               src_or_data t = Some ref))))"
proof -
  have "\<exists>ref. \<not> marked ref \<and> urljoin w url ref = Some u \<and>
        (ref \<in> set (hrefs_of soup) \<or>
         (\<exists>t \<in> set (find_all [''object'', ''iframe'', ''embed''] soup). src_or_data t = Some ref))"
    if sl: "scanned_links w url soup = Inr links" and u: "u \<in> set links" for links u
  proof -
    from sl obtain first where
      f: "scan_links (requests_head w) (urljoin w) url [] (hrefs_of soup) = Inr first"
      and e: "scan_embeds (requests_head w) (urljoin w) url first
                (find_all [''object'', ''iframe'', ''embed''] soup) = Inr links"
      by (auto simp: scanned_links_def split: sum.splits)
    from scan_embeds_set [OF e u] consider "u \<in> set first"
      | "\<exists>t \<in> set (find_all [''object'', ''iframe'', ''embed''] soup).
           \<exists>src. src_or_data t = Some src \<and> \<not> marked src \<and> urljoin w url src = Some u"
      by blast
    then show ?thesis
    proof cases
      case 1
      from scan_links_set [OF f 1] show ?thesis by auto
    next
      case 2
      then show ?thesis by blast
    qed
  qed
  then show ?thesis using scan_links_filter scan_embeds_filter by blast
qed

theorem marker_exclusion_witness:
  "map marked (hrefs_of (page_source linked_page)) = [True, False] \<and>
   map marked_embed (find_all [''object'', ''iframe'', ''embed''] (page_source linked_page)) = [True] \<and>
   scanned_links linked_world detail_url (page_source linked_page)
     = Inr [''https://rbidocs.rbi.org.in/rdocs/notification/PDFs/NT9999.PDF''] \<and>
   (\<exists>ref. \<not> marked ref \<and>
      urljoin linked_world detail_url ref
        = Some ''https://rbidocs.rbi.org.in/rdocs/notification/PDFs/NT9999.PDF'')"
proof -
  have 1: "map marked (hrefs_of (page_source linked_page)) = [True, False]" by code_simp
  have 2: "map marked_embed (find_all [''object'', ''iframe'', ''embed''] (page_source linked_page))
      = [True]" by code_simp
  have 3: "scanned_links linked_world detail_url (page_source linked_page)
     = Inr [''https://rbidocs.rbi.org.in/rdocs/notification/PDFs/NT9999.PDF'']" by code_simp
  have 4: "\<exists>ref. \<not> marked ref \<and>
      urljoin linked_world detail_url ref
        = Some ''https://rbidocs.rbi.org.in/rdocs/notification/PDFs/NT9999.PDF''"
    using marker_exclusion [where w = linked_world and url = detail_url
        and soup = "page_source linked_page"] 3
    by fastforce
  show ?thesis using 1 2 3 4 by blast
qed

text \<open>
  With the identifier \<open>utkarsh\<close>, a page without links and a network that answers every
  URL with a PDF, the resolver returns a generated URL that contains the marker.
\<close>

theorem marker_fallback_counterexample:
  "get_pdf_from_circular_page generous_world
     ''https://rbi.org.in/Scripts/BS_CircularIndexDisplay.aspx?Id=utkarsh''
     = (Some ''https://rbidocs.rbi.org.in/rdocs/content/pdfs/utkarsh.pdf'', None) \<and>
   contains_str ''utkarsh'' ''https://rbidocs.rbi.org.in/rdocs/content/pdfs/utkarsh.pdf''"
  by code_simp

subsection \<open>The fetcher\<close>

lemma concat_nonempty_chunks: "concat (filter (\<lambda>chunk. chunk \<noteq> []) xs) = concat xs"
  by (induction xs) simp_all

text \<open>
  C9. When the download has written the file (the request answered without an error
  status, the path could be written and the stream ended), the fetcher reads back its
  first 4 bytes: it logs the warning exactly when they are not \<open>%PDF\<close>, it logs nothing
  above INFO when they are, and in both cases it returns the path of the file, which
  holds the bytes received.
\<close>

theorem download_pdf_signature_check:
  "requests_get w url = Get_response r \<and> \<not> (400 \<le> status_code r \<and> status_code r < 600) \<and>
   \<not> unwritable fs (download_path w url) \<and>
   (\<forall>v. content_length r = Some v \<longrightarrow> int_parses w v) \<and> \<not> stream_fails r \<longrightarrow>
     (case download_pdf w fs url of
        (fs', result, log) \<Rightarrow>
          result = Some (download_path w url) \<and>
          files fs' (download_path w url) = Some (concat (chunks r)) \<and>
          ((WARNING, Not_a_valid_PDF) \<in> set log \<longleftrightarrow> take 4 (concat (chunks r)) \<noteq> ''%PDF'') \<and>
          (take 4 (concat (chunks r)) = ''%PDF'' \<longrightarrow> (\<forall>entry \<in> set log. fst entry = INFO)))"
  by (auto simp: download_pdf_def Let_def concat_nonempty_chunks split: option.splits)

theorem download_pdf_signature_check_witness:
  "download_pdf mail_down_world office_fs sample_pdf_url =
     (office_fs\<lparr>files := (files office_fs)
        (''/opt/rbi/downloads/NT9999.PDF_20250102_030405.pdf'' \<mapsto> ''%PDF-1.7x'')\<rparr>,
      Some ''/opt/rbi/downloads/NT9999.PDF_20250102_030405.pdf'',
      [(INFO, Downloading_PDF sample_pdf_url), (INFO, Content_Type ''application/pdf''),
       (INFO, PDF_saved ''/opt/rbi/downloads/NT9999.PDF_20250102_030405.pdf'' 9)]) \<and>
   snd (download_pdf markup_world office_fs sample_pdf_url) =
     (Some ''/opt/rbi/downloads/NT9999.PDF_20250102_030405.pdf'',
      [(INFO, Downloading_PDF sample_pdf_url), (INFO, Content_Type ''text/html''),
       (INFO, PDF_saved ''/opt/rbi/downloads/NT9999.PDF_20250102_030405.pdf'' 13),
       (WARNING, Not_a_valid_PDF)])"
proof -
  have p: "download_path mail_down_world sample_pdf_url
      = ''/opt/rbi/downloads/NT9999.PDF_20250102_030405.pdf''"
    "download_path markup_world sample_pdf_url
      = ''/opt/rbi/downloads/NT9999.PDF_20250102_030405.pdf''"
    by code_simp+
  have g: "requests_get mail_down_world sample_pdf_url = Get_response pdf_response"
    "requests_get markup_world sample_pdf_url = Get_response html_response"
    by (simp_all add: mail_down_world_def markup_world_def)
  have i: "int_parses mail_down_world ''9''"
    by (simp add: mail_down_world_def offline_world_def)
  have 1: "snd (snd (download_pdf mail_down_world office_fs sample_pdf_url)) =
      [(INFO, Downloading_PDF sample_pdf_url), (INFO, Content_Type ''application/pdf''),
       (INFO, PDF_saved ''/opt/rbi/downloads/NT9999.PDF_20250102_030405.pdf'' 9)]"
    by code_simp
  have 2: "snd (snd (download_pdf markup_world office_fs sample_pdf_url)) =
      [(INFO, Downloading_PDF sample_pdf_url), (INFO, Content_Type ''text/html''),
       (INFO, PDF_saved ''/opt/rbi/downloads/NT9999.PDF_20250102_030405.pdf'' 13),
       (WARNING, Not_a_valid_PDF)]"
    by code_simp
  have 3: "fst (download_pdf mail_down_world office_fs sample_pdf_url) =
      office_fs\<lparr>files := (files office_fs)
        (''/opt/rbi/downloads/NT9999.PDF_20250102_030405.pdf'' \<mapsto> ''%PDF-1.7x'')\<rparr>"
    using g(1) p(1) i
    by (simp add: download_pdf_def Let_def pdf_response_def office_fs_def)
  show ?thesis
    using download_pdf_signature_check [of mail_down_world sample_pdf_url pdf_response office_fs]
      download_pdf_signature_check [of markup_world sample_pdf_url html_response office_fs]
      p g i 1 2 3
    by (auto simp: pdf_response_def html_response_def office_fs_def split: prod.splits)
qed

subsection \<open>The run\<close>

lemma state_written_append [simp]:
  "state_written (cs @ ds) = (state_written cs \<or> state_written ds)"
  by (simp add: state_written_def list_ex_iff) blast

lemma notified_append [simp]: "notified (cs @ ds) = (notified cs \<or> notified ds)"
  by (simp add: notified_def list_ex_iff) blast

lemma state_written_Nil [simp]: "\<not> state_written []"
  by (simp add: state_written_def)

lemma notified_Nil [simp]: "\<not> notified []"
  by (simp add: notified_def)

lemma state_written_single [simp]: "state_written [c] = is_state_write c"
  by (simp add: state_written_def)

lemma notified_single [simp]: "notified [c] = is_notification c"
  by (simp add: notified_def)

lemma state_written_Cons [simp]: "state_written (c # cs) = (is_state_write c \<or> state_written cs)"
  by (simp add: state_written_def)

lemma notified_Cons [simp]: "notified (c # cs) = (is_notification c \<or> notified cs)"
  by (simp add: notified_def)

lemma path_join_set: "set b \<subseteq> set (path_join a b)"
  by (auto simp: path_join_def)

lemma not_state_file: "c \<in> set path \<Longrightarrow> c \<notin> set LAST_CIRCULAR_FILE \<Longrightarrow> path \<noteq> LAST_CIRCULAR_FILE"
  by blast

lemma download_path_not_state_file: "download_path w url \<noteq> LAST_CIRCULAR_FILE"
proof (rule not_state_file [of "CHR ''p''"])
  have "CHR ''p'' \<in> set (download_filename w url)"
    by (simp add: download_filename_def Let_def)
  then show "CHR ''p'' \<in> set (download_path w url)"
    unfolding download_path_def using path_join_set by blast
  show "CHR ''p'' \<notin> set LAST_CIRCULAR_FILE" by (simp add: LAST_CIRCULAR_FILE_def)
qed

lemma synthesized_pdf_not_state_file:
  "path_join d (synthesized_pdf_filename n t) \<noteq> LAST_CIRCULAR_FILE"
proof (rule not_state_file [of "CHR ''p''"])
  have "CHR ''p'' \<in> set (synthesized_pdf_filename n t)"
    by (simp add: synthesized_pdf_filename_def artifact_filename_def)
  then show "CHR ''p'' \<in> set (path_join d (synthesized_pdf_filename n t))"
    using path_join_set by blast
  show "CHR ''p'' \<notin> set LAST_CIRCULAR_FILE" by (simp add: LAST_CIRCULAR_FILE_def)
qed

lemma synthesized_html_not_state_file:
  "path_join d (synthesized_html_filename n t) \<noteq> LAST_CIRCULAR_FILE"
proof (rule not_state_file [of "CHR ''h''"])
  have "CHR ''h'' \<in> set (synthesized_html_filename n t)"
    by (simp add: synthesized_html_filename_def artifact_filename_def)
  then show "CHR ''h'' \<in> set (path_join d (synthesized_html_filename n t))"
    using path_join_set by blast
  show "CHR ''h'' \<notin> set LAST_CIRCULAR_FILE" by (simp add: LAST_CIRCULAR_FILE_def)
qed

lemma checklist_not_state_file:
  "path_join d (checklist_filename n t) \<noteq> LAST_CIRCULAR_FILE"
proof (rule not_state_file [of "CHR ''R''"])
  have "CHR ''R'' \<in> set (checklist_filename n t)"
    by (simp add: checklist_filename_def artifact_filename_def)
  then show "CHR ''R'' \<in> set (path_join d (checklist_filename n t))"
    using path_join_set by blast
  show "CHR ''R'' \<notin> set LAST_CIRCULAR_FILE" by (simp add: LAST_CIRCULAR_FILE_def)
qed

lemma state_written_rev [simp]: "state_written (rev cs) = state_written cs"
  by (simp add: state_written_def list_ex_iff)

lemma notified_rev [simp]: "notified (rev cs) = notified cs"
  by (simp add: notified_def list_ex_iff)

lemma state_kept_refl [simp]: "state_kept fs fs"
  by (simp add: state_kept_def)

lemma state_kept_trans: "state_kept fs fs1 \<Longrightarrow> state_kept fs1 fs2 \<Longrightarrow> state_kept fs fs2"
  by (simp add: state_kept_def)

lemma download_pdf_state_kept: "download_pdf w fs url = (fs', res) \<Longrightarrow> state_kept fs fs'"
  using download_path_not_state_file [of w url] download_path_not_state_file [of w url, THEN not_sym]
  by (auto simp: state_kept_def download_pdf_def Let_def split: get_outcome.splits if_splits)

lemma create_pdf_state_kept:
  "create_pdf_from_html_content w fs c h = (fs', res) \<Longrightarrow> state_kept fs fs'"
  using synthesized_pdf_not_state_file synthesized_html_not_state_file
    synthesized_pdf_not_state_file [THEN not_sym] synthesized_html_not_state_file [THEN not_sym]
  by (auto simp: state_kept_def create_pdf_from_html_content_def Let_def
      split: weasyprint_outcome.splits if_splits option.splits)

lemma create_checklist_state_kept:
  "create_checklist_file w fs t c = (fs', res) \<Longrightarrow> state_kept fs fs'"
  using checklist_not_state_file checklist_not_state_file [THEN not_sym]
  by (auto simp: state_kept_def create_checklist_file_def Let_def split: if_splits)

lemma checklist_step_state_kept:
  "checklist_step w fs cs l c = Inr (fs', cs', lnk) \<Longrightarrow>
     state_kept fs fs' \<and> state_written cs' = state_written cs \<and> notified cs' = notified cs"
  by (auto simp: checklist_step_def Let_def dest: create_checklist_state_kept
      split: option.splits if_splits gemini_outcome.splits prod.splits)

lemma token_write_state_kept: "write_text fs ''token.json'' t = Inr fs' \<Longrightarrow> state_kept fs fs'"
  by (auto simp: state_kept_def write_text_def LAST_CIRCULAR_FILE_def split: if_splits)

lemma notify_then_save_end:
  "\<not> state_written cs \<Longrightarrow> \<not> notified cs \<Longrightarrow>
     notify_then_save sent cid ((cs @ [Send_gmail_api_email sent]) @ [Set_last_circular_id cid])"
  by (simp add: notify_then_save_def)

lemma notify_then_save_calls:
  assumes "notify_then_save sent cid cs"
  shows "notified cs \<and> state_written cs"
proof -
  from assms obtain earlier
    where "rev cs = Set_last_circular_id cid # Send_gmail_api_email sent # earlier"
    by (auto simp: notify_then_save_def split: list.splits)
  then have "notified (rev cs) \<and> state_written (rev cs)" by simp
  then show ?thesis by simp
qed

lemma early_exit_guarded:
  "state_kept fs0 fs1 \<Longrightarrow> \<not> state_written cs1 \<Longrightarrow> \<not> notified cs1 \<Longrightarrow> e \<noteq> Completed \<Longrightarrow>
     state_guarded w fs0 cid \<lparr>final_fs = fs1, calls = cs1, exit = e\<rparr>"
  by (simp add: state_guarded_def state_kept_def)

lemma notify_and_save_guarded:
  assumes "state_kept fs0 fs" "\<not> state_written cs" "\<not> notified cs"
  shows "state_guarded w fs0 (circular_number l) (notify_and_save w fs cs l)"
proof (cases "unwritable fs LAST_CIRCULAR_FILE")
  case True
  then have "notify_and_save w fs cs l =
      \<lparr>final_fs = fs,
       calls = (cs @ [Send_gmail_api_email (send_gmail_api_email w)]) @
               [Set_last_circular_id (circular_number l)],
       exit = Unhandled_exception\<rparr>"
    by (simp add: notify_and_save_def Let_def set_last_circular_id_def write_text_def)
  then show ?thesis
    using True assms notify_then_save_end [OF assms(2,3)]
    by (simp add: state_guarded_def state_kept_def)
next
  case False
  then have "notify_and_save w fs cs l =
      \<lparr>final_fs = fs\<lparr>files := (files fs)(LAST_CIRCULAR_FILE \<mapsto> circular_number l)\<rparr>,
       calls = (cs @ [Send_gmail_api_email (send_gmail_api_email w)]) @
               [Set_last_circular_id (circular_number l)],
       exit = Completed\<rparr>"
    by (simp add: notify_and_save_def Let_def set_last_circular_id_def write_text_def)
  then show ?thesis
    using False assms notify_then_save_end [OF assms(2,3)]
    by (simp add: state_guarded_def state_kept_def)
qed

lemma publish_guarded:
  assumes "state_kept fs0 fs" "\<not> state_written cs" "\<not> notified cs"
  shows "state_guarded w fs0 (circular_number l) (publish w fs cs l p c)"
proof -
  note early = early_exit_guarded [where w = w and ?fs0.0 = fs0 and cid = "circular_number l"]
  have late: "state_guarded w fs0 (circular_number l)
       (case checklist_step w fs1 cs1 l c of
          Inl e \<Rightarrow> \<lparr>final_fs = fs1, calls = cs1, exit = Unhandled_exception\<rparr>
        | Inr (fs2, cs2, checklist_drive_link) \<Rightarrow> notify_and_save w fs2 cs2 l)"
    if "state_kept fs0 fs1" "\<not> state_written cs1" "\<not> notified cs1"
    for fs1 cs1
  proof (cases "checklist_step w fs1 cs1 l c")
    case (Inl e)
    then show ?thesis using early [OF that] by simp
  next
    case (Inr res)
    obtain fs2 cs2 lnk where res: "res = (fs2, cs2, lnk)" by (cases res) auto
    from checklist_step_state_kept [OF Inr [unfolded res]] that
    have "state_kept fs0 fs2" "\<not> state_written cs2" "\<not> notified cs2"
      using state_kept_trans by blast+
    then show ?thesis using Inr res notify_and_save_guarded by simp
  qed
  show ?thesis
  proof (cases "files fs ''credentials.json'' = None")
    case True
    then show ?thesis using early [OF assms] by (simp add: publish_def)
  next
    case cred: False
    have cs1: "\<not> state_written (cs @ [Authenticate_google_apis])"
      "\<not> notified (cs @ [Authenticate_google_apis])"
      using assms(2,3) by simp_all
    show ?thesis
    proof (cases "authenticate_google_apis w")
      case Auth_raises
      then show ?thesis using cred early [OF assms(1) cs1] by (auto simp: publish_def)
    next
      case Auth_none
      then show ?thesis using cred early [OF assms(1) cs1] by (auto simp: publish_def)
    next
      case (Auth_creds token)
      let ?tw = "case token of None \<Rightarrow> Inr fs | Some t \<Rightarrow> write_text fs ''token.json'' t"
      show ?thesis
      proof (cases ?tw)
        case (Inl e)
        then show ?thesis
          using cred Auth_creds early [OF assms(1) cs1] by (auto simp: publish_def)
      next
        case (Inr fs1)
        have f1: "state_kept fs0 fs1"
        proof (cases token)
          case None
          with Inr assms(1) show ?thesis by simp
        next
          case (Some t)
          with Inr have "state_kept fs fs1" using token_write_state_kept by simp
          with assms(1) show ?thesis by (rule state_kept_trans)
        qed
        have cs2: "\<not> state_written ((cs @ [Authenticate_google_apis]) @ [Upload_drive p])"
          "\<not> notified ((cs @ [Authenticate_google_apis]) @ [Upload_drive p])"
          using assms(2,3) by simp_all
        show ?thesis
        proof (cases "build_raises w \<or> \<not> truthy (upload_drive w p)")
          case True
          then show ?thesis
            using cred Auth_creds Inr early [OF f1 cs1] early [OF f1 cs2]
            by (auto simp: publish_def Let_def)
        next
          case False
          then show ?thesis
            using cred Auth_creds Inr late [OF f1 cs2]
            by (auto simp: publish_def Let_def)
        qed
      qed
    qed
  qed
qed

lemma fetch_and_publish_guarded:
  assumes "\<not> state_written cs" "\<not> notified cs"
  shows "state_guarded w fs (circular_number l) (fetch_and_publish w fs cs l url)"
proof -
  obtain pdf_url html_content where res: "get_pdf_from_circular_page w url = (pdf_url, html_content)"
    by (cases "get_pdf_from_circular_page w url") auto
  note early = early_exit_guarded [where w = w and ?fs0.0 = fs and cid = "circular_number l"]
  show ?thesis
  proof (cases "truthy pdf_url \<and> pdf_url \<noteq> Some ''HTML_ONLY''")
    case True
    let ?u = "case pdf_url of None \<Rightarrow> [] | Some u \<Rightarrow> u"
    let ?cs = "(cs @ [Get_pdf_from_circular_page url]) @ [Download_pdf ?u]"
    obtain fs1 local_filepath lg where dl: "download_pdf w fs ?u = (fs1, local_filepath, lg)"
      by (cases "download_pdf w fs ?u") auto
    have f1: "state_kept fs fs1"
      using download_pdf_state_kept [OF dl] .
    have cs1: "\<not> state_written ?cs" "\<not> notified ?cs" using assms by simp_all
    show ?thesis
    proof (cases "local_filepath = None \<or> local_filepath = Some []")
      case none: True
      then show ?thesis
        using True res dl early [OF f1 cs1, of No_local_file]
        by (auto simp: fetch_and_publish_def Let_def)
    next
      case False
      then obtain path where "local_filepath = Some path" "path \<noteq> []" by auto
      then show ?thesis
        using True res dl publish_guarded [OF f1 cs1]
        by (auto simp: fetch_and_publish_def Let_def)
    qed
  next
    case notpdf: False
    show ?thesis
    proof (cases "pdf_url = Some ''HTML_ONLY''")
      case True
      let ?cs = "(cs @ [Get_pdf_from_circular_page url]) @ [Create_pdf_from_html_content]"
      obtain fs1 made where mk: "create_pdf_from_html_content w fs l html_content = (fs1, made)"
        by (cases "create_pdf_from_html_content w fs l html_content") auto
      have f1: "state_kept fs fs1"
        using create_pdf_state_kept [OF mk] .
      have cs1: "\<not> state_written ?cs" "\<not> notified ?cs" using assms by simp_all
      show ?thesis
      proof (cases "\<exists>path. made = Inr (Some path) \<and> path \<noteq> []")
        case yes: True
        then show ?thesis
          using True res mk publish_guarded [OF f1 cs1]
          by (auto simp: fetch_and_publish_def Let_def truthy_def)
      next
        case False
        then show ?thesis
          using True res mk early [OF f1 cs1, of No_local_file]
            early [OF f1 cs1, of Unhandled_exception]
          by (auto simp: fetch_and_publish_def Let_def truthy_def split: sum.splits option.splits)
      qed
    next
      case False
      have "\<not> state_written (cs @ [Get_pdf_from_circular_page url])"
        "\<not> notified (cs @ [Get_pdf_from_circular_page url])" using assms by simp_all
      then show ?thesis
        using notpdf False res early [of fs _ No_document]
        by (auto simp: fetch_and_publish_def Let_def)
    qed
  qed
qed

lemma main_guarded:
  "state_guarded w fs
     (case get_latest_circular_info w of None \<Rightarrow> [] | Some (l, url) \<Rightarrow> circular_number l)
     (main w fs)"
proof (cases "get_latest_circular_info w")
  case None
  then show ?thesis by (simp add: main_def state_guarded_def)
next
  case (Some a)
  obtain l url where a: "a = (l, url)" by (cases a) auto
  show ?thesis
  proof (cases "Some (circular_number l) = get_last_circular_id fs")
    case True
    then show ?thesis using Some a by (simp add: main_def Let_def state_guarded_def)
  next
    case False
    then have m: "main w fs = fetch_and_publish w fs [Get_latest_circular_info] l url"
      using Some a by (simp add: main_def Let_def)
    have "\<not> state_written [Get_latest_circular_info]" "\<not> notified [Get_latest_circular_info]"
      by simp_all
    from fetch_and_publish_guarded [OF this, of w fs l url] show ?thesis
      unfolding m using Some a by simp
  qed
qed

lemma get_latest_send [simp]:
  "get_latest_circular_info (w\<lparr>send_gmail_api_email := b\<rparr>) = get_latest_circular_info w"
  by (simp add: get_latest_circular_info_def Let_def split: browse_outcome.splits list.splits option.splits)

lemma scanned_links_send [simp]:
  "scanned_links (w\<lparr>send_gmail_api_email := b\<rparr>) url soup = scanned_links w url soup"
  by (simp add: scanned_links_def split: sum.splits)

lemma get_pdf_send [simp]:
  "get_pdf_from_circular_page (w\<lparr>send_gmail_api_email := b\<rparr>) url = get_pdf_from_circular_page w url"
  by (simp add: get_pdf_from_circular_page_def Let_def split: browse_outcome.splits sum.splits option.splits)

lemma download_path_send [simp]:
  "download_path (w\<lparr>send_gmail_api_email := b\<rparr>) u = download_path w u"
  by (simp add: download_path_def download_filename_def Let_def)

lemma download_pdf_send [simp]:
  "download_pdf (w\<lparr>send_gmail_api_email := b\<rparr>) fs u = download_pdf w fs u"
  by (simp add: download_pdf_def Let_def split: get_outcome.splits option.splits)

lemma create_pdf_send [simp]:
  "create_pdf_from_html_content (w\<lparr>send_gmail_api_email := b\<rparr>) fs l h
     = create_pdf_from_html_content w fs l h"
  by (simp add: create_pdf_from_html_content_def Let_def split: weasyprint_outcome.splits)

lemma extract_pdf_text_send [simp]:
  "extract_pdf_text (w\<lparr>send_gmail_api_email := b\<rparr>) fs p = extract_pdf_text w fs p"
  by (simp add: extract_pdf_text_def split: option.splits)

lemma create_checklist_send [simp]:
  "create_checklist_file (w\<lparr>send_gmail_api_email := b\<rparr>) fs t l = create_checklist_file w fs t l"
  by (simp add: create_checklist_file_def Let_def)

lemma checklist_step_send [simp]:
  "checklist_step (w\<lparr>send_gmail_api_email := b\<rparr>) fs cs l c = checklist_step w fs cs l c"
  by (simp add: checklist_step_def Let_def split: option.splits gemini_outcome.splits prod.splits)

lemma notify_and_save_send [simp]:
  "outcome (notify_and_save (w\<lparr>send_gmail_api_email := b\<rparr>) fs cs l)
     = outcome (notify_and_save w fs cs l)"
  by (simp add: notify_and_save_def outcome_def Let_def split: sum.splits)

lemma publish_send [simp]:
  "outcome (publish (w\<lparr>send_gmail_api_email := b\<rparr>) fs cs l p c) = outcome (publish w fs cs l p c)"
proof -
  have late: "outcome (case checklist_step w fs1 cs1 l c of
          Inl e \<Rightarrow> \<lparr>final_fs = fs1, calls = cs1, exit = Unhandled_exception\<rparr>
        | Inr (fs2, cs2, checklist_drive_link) \<Rightarrow>
            notify_and_save (w\<lparr>send_gmail_api_email := b\<rparr>) fs2 cs2 l)
      = outcome (case checklist_step w fs1 cs1 l c of
          Inl e \<Rightarrow> \<lparr>final_fs = fs1, calls = cs1, exit = Unhandled_exception\<rparr>
        | Inr (fs2, cs2, checklist_drive_link) \<Rightarrow> notify_and_save w fs2 cs2 l)"
    for fs1 cs1
    by (cases "checklist_step w fs1 cs1 l c") (auto split: prod.splits)
  show ?thesis
    unfolding publish_def Let_def
    by (cases "authenticate_google_apis w")
       (auto simp: late split: option.splits sum.splits)
qed

lemma fetch_and_publish_send [simp]:
  "outcome (fetch_and_publish (w\<lparr>send_gmail_api_email := b\<rparr>) fs cs l url)
     = outcome (fetch_and_publish w fs cs l url)"
  unfolding fetch_and_publish_def Let_def
  by (cases "get_pdf_from_circular_page w url")
     (auto split: prod.splits option.splits sum.splits)

lemma main_send:
  "outcome (main (w\<lparr>send_gmail_api_email := b\<rparr>) fs) = outcome (main w fs)"
  unfolding main_def Let_def
  by (cases "get_latest_circular_info w") (auto simp: outcome_def [of "\<lparr>final_fs = _, calls = _, exit = _\<rparr>"])

text \<open>
  C1, as amended. The state file is written only at the end of a run. A run that does not
  complete (index discovery, artifact resolution, download or synthesis failed, the
  credentials file is missing, authentication or the upload of the circular failed, or an
  exception reached \<open>main\<close>) leaves the state file as it was. \<open>set_last_circular_id\<close> is
  called at most once, as the last call of the run, right after the one notification
  call: a run that makes neither call does not complete. What the notification returns
  is dropped: a run that reaches the notification calls \<open>set_last_circular_id\<close> next
  with the number of the latest circular whatever the notification returned, and it
  completes, with that number in the state file, unless the state file cannot be
  written; with any other outcome of the notification the run ends in the same way with
  the same files.
\<close>

theorem state_written_only_at_the_end:
  "(exit (main w fs) \<noteq> Completed \<longrightarrow>
      files (final_fs (main w fs)) LAST_CIRCULAR_FILE = files fs LAST_CIRCULAR_FILE) \<and>
   (state_written (calls (main w fs)) \<or> notified (calls (main w fs)) \<longrightarrow>
      (\<exists>latest url. get_latest_circular_info w = Some (latest, url) \<and>
         notify_then_save (send_gmail_api_email w) (circular_number latest) (calls (main w fs))) \<and>
      exit (main w fs) =
        (if unwritable fs LAST_CIRCULAR_FILE then Unhandled_exception else Completed)) \<and>
   (exit (main w fs) = Completed \<longrightarrow>
      notified (calls (main w fs)) \<and>
      (\<exists>latest url. get_latest_circular_info w = Some (latest, url) \<and>
         files (final_fs (main w fs)) LAST_CIRCULAR_FILE = Some (circular_number latest))) \<and>
   final_fs (main (w\<lparr>send_gmail_api_email := sent\<rparr>) fs) = final_fs (main w fs) \<and>
   exit (main (w\<lparr>send_gmail_api_email := sent\<rparr>) fs) = exit (main w fs)"
proof -
  note g = main_guarded [of w fs, unfolded state_guarded_def]
  have none: "\<not> state_written (calls (main w fs)) \<and> \<not> notified (calls (main w fs)) \<and>
      exit (main w fs) = No_latest_circular"
    if "get_latest_circular_info w = None"
    using that by (simp add: main_def)
  have a: "exit (main w fs) \<noteq> Completed \<longrightarrow>
      files (final_fs (main w fs)) LAST_CIRCULAR_FILE = files fs LAST_CIRCULAR_FILE"
    using g by (simp split: if_splits)
  have b: "(\<exists>latest url. get_latest_circular_info w = Some (latest, url) \<and>
         notify_then_save (send_gmail_api_email w) (circular_number latest) (calls (main w fs))) \<and>
      exit (main w fs) =
        (if unwritable fs LAST_CIRCULAR_FILE then Unhandled_exception else Completed)"
    if reached: "state_written (calls (main w fs)) \<or> notified (calls (main w fs))"
  proof (cases "get_latest_circular_info w")
    case None
    with none reached show ?thesis by blast
  next
    case (Some a)
    obtain l url where "a = (l, url)" by (cases a) auto
    with Some g reached show ?thesis by (simp split: if_splits)
  qed
  have c: "notified (calls (main w fs)) \<and>
      (\<exists>latest url. get_latest_circular_info w = Some (latest, url) \<and>
         files (final_fs (main w fs)) LAST_CIRCULAR_FILE = Some (circular_number latest))"
    if fin: "exit (main w fs) = Completed"
  proof (cases "get_latest_circular_info w")
    case None
    with none fin show ?thesis by simp
  next
    case (Some a)
    obtain l url where al: "a = (l, url)" by (cases a) auto
    have "state_written (calls (main w fs)) \<or> notified (calls (main w fs))"
      using g fin by (auto split: if_splits)
    with b have "\<exists>latest url. get_latest_circular_info w = Some (latest, url) \<and>
         notify_then_save (send_gmail_api_email w) (circular_number latest) (calls (main w fs))"
      by blast
    then have "notified (calls (main w fs))"
      using notify_then_save_calls by blast
    with Some al g fin show ?thesis by simp
  qed
  have d: "final_fs (main (w\<lparr>send_gmail_api_email := sent\<rparr>) fs) = final_fs (main w fs) \<and>
      exit (main (w\<lparr>send_gmail_api_email := sent\<rparr>) fs) = exit (main w fs)"
    using main_send [where w = w and b = sent and fs = fs] by (simp add: outcome_def)
  show ?thesis using a b c d by blast
qed

theorem state_written_only_at_the_end_witness:
  "exit (main mail_down_world empty_fs) = No_credentials \<and>
   \<not> state_written (calls (main mail_down_world empty_fs)) \<and>
   files (final_fs (main mail_down_world empty_fs)) LAST_CIRCULAR_FILE = None \<and>
   \<not> unwritable office_fs LAST_CIRCULAR_FILE \<and>
   notified (calls (main mail_down_world office_fs)) \<and>
   notify_then_save False ''DOR.2025.02'' (calls (main mail_down_world office_fs)) \<and>
   exit (main mail_down_world office_fs) = Completed \<and>
   files (final_fs (main mail_down_world office_fs)) LAST_CIRCULAR_FILE = Some ''DOR.2025.02''"
proof -
  have 1: "exit (main mail_down_world empty_fs) = No_credentials" by code_simp
  have 2: "\<not> state_written (calls (main mail_down_world empty_fs))" by code_simp
  have 3: "files empty_fs LAST_CIRCULAR_FILE = None" by (simp add: empty_fs_def)
  have 4: "\<not> unwritable office_fs LAST_CIRCULAR_FILE" by (simp add: office_fs_def)
  have 5: "notified (calls (main mail_down_world office_fs))" by code_simp
  have 6: "map_option (\<lambda>(latest, url). circular_number latest)
             (get_latest_circular_info mail_down_world) = Some ''DOR.2025.02''" by code_simp
  have 7: "send_gmail_api_email mail_down_world = False" by (simp add: mail_down_world_def)
  note t1 = state_written_only_at_the_end [of mail_down_world empty_fs]
  note t2 = state_written_only_at_the_end [of mail_down_world office_fs]
  have 8: "files (final_fs (main mail_down_world empty_fs)) LAST_CIRCULAR_FILE = None"
    using t1 1 3 by simp
  have 9: "exit (main mail_down_world office_fs) = Completed" using t2 4 5 by simp
  have 10: "notify_then_save False ''DOR.2025.02'' (calls (main mail_down_world office_fs))"
    using t2 5 6 7 by auto
  have 11: "files (final_fs (main mail_down_world office_fs)) LAST_CIRCULAR_FILE
      = Some ''DOR.2025.02''"
    using t2 9 6 by auto
  show ?thesis using 1 2 4 5 8 9 10 11 by blast
qed

text \<open>
  The notification returns \<open>None\<close>, the run completes, and the state file, absent
  before, holds the number of the circular.
\<close>

theorem notification_failure_counterexample:
  "send_gmail_api_email mail_down_world = False \<and>
   Send_gmail_api_email False \<in> set (calls (main mail_down_world office_fs)) \<and>
   exit (main mail_down_world office_fs) = Completed \<and>
   files office_fs LAST_CIRCULAR_FILE = None \<and>
   files (final_fs (main mail_down_world office_fs)) LAST_CIRCULAR_FILE = Some ''DOR.2025.02''"
  by code_simp

lemma main_short_circuit:
  "get_latest_circular_info w = Some (latest, url) \<Longrightarrow>
   get_last_circular_id fs = Some (circular_number latest) \<Longrightarrow>
     main w fs = \<lparr>final_fs = fs, calls = [Get_latest_circular_info], exit = Already_processed\<rparr>"
  by (simp add: main_def)

lemma latest_circular_number_stripped:
  assumes "get_latest_circular_info w = Some (latest, url)"
  shows "\<not> surrounding_whitespace (circular_number latest)"
proof -
  have "\<exists>pg :: page. latest \<in> set (parse_circulars_table (page_source pg))"
  proof (cases "browse w BASE_PAGE")
    case (Loaded pg)
    show ?thesis
    proof (cases "parse_circulars_table (page_source pg)")
      case Nil
      with Loaded assms show ?thesis by (simp add: get_latest_circular_info_def)
    next
      case (Cons c rest)
      with Loaded assms have "latest = c"
        by (simp add: get_latest_circular_info_def split: option.splits)
      with Cons have "latest \<in> set (parse_circulars_table (page_source pg))" by simp
      then show ?thesis by blast
    qed
  next
    case Driver_setup_failed
    with assms show ?thesis by (simp add: get_latest_circular_info_def)
  next
    case Load_raises
    with assms show ?thesis by (simp add: get_latest_circular_info_def)
  qed
  then obtain row where "latest \<in> set (parse_row [] row)"
    by (auto simp: parse_circulars_table_visited)
  then show ?thesis using parse_row_invariant by blast
qed

lemma second_run_short_circuit:
  assumes "exit (main w fs) = Completed"
    "get_latest_circular_info w = Some (latest, url)"
    "CHR 0x0D \<notin> set (circular_number latest)"
  shows "main w (final_fs (main w fs))
     = \<lparr>final_fs = final_fs (main w fs), calls = [Get_latest_circular_info],
        exit = Already_processed\<rparr>"
proof -
  have "files (final_fs (main w fs)) LAST_CIRCULAR_FILE = Some (circular_number latest)"
    using main_guarded [of w fs] assms(1,2) by (simp add: state_guarded_def)
  then have "get_last_circular_id (final_fs (main w fs))
      = Some (strip (universal_newlines (circular_number latest)))"
    by (simp add: get_last_circular_id_def read_text_def)
  then have "get_last_circular_id (final_fs (main w fs)) = Some (circular_number latest)"
    using assms(3) latest_circular_number_stripped [OF assms(2)]
    by (simp add: universal_newlines_id strip_id)
  with assms(2) show ?thesis by (rule main_short_circuit)
qed

text \<open>
  C6, as amended. When the number of the latest circular equals the identifier that
  \<open>get_last_circular_id\<close> reads from the state file, the only call of the run is the
  discovery of the latest circular: no artifact resolution, download, upload or
  notification, and the files are unchanged. Two runs in a row: after a run that
  completed, a second run that finds the same latest circular takes this short-circuit,
  provided the circular number holds no carriage return (so that it is read back as it
  was saved).
\<close>

theorem unchanged_circular_short_circuit:
  "(get_latest_circular_info w = Some (latest, url) \<and>
    get_last_circular_id fs = Some (circular_number latest) \<longrightarrow>
      main w fs = \<lparr>final_fs = fs, calls = [Get_latest_circular_info], exit = Already_processed\<rparr>) \<and>
   (get_latest_circular_info w = Some (latest, url) \<and> exit (main w fs) = Completed \<and>
    CHR 0x0D \<notin> set (circular_number latest) \<longrightarrow>
      main w (final_fs (main w fs))
        = \<lparr>final_fs = final_fs (main w fs), calls = [Get_latest_circular_info],
           exit = Already_processed\<rparr>)"
  using main_short_circuit second_run_short_circuit by blast

theorem unchanged_circular_short_circuit_witness:
  "exit (main mail_down_world office_fs) = Completed \<and>
   main mail_down_world (final_fs (main mail_down_world office_fs))
     = \<lparr>final_fs = final_fs (main mail_down_world office_fs),
        calls = [Get_latest_circular_info], exit = Already_processed\<rparr>"
proof -
  have 1: "exit (main mail_down_world office_fs) = Completed" by code_simp
  have 2: "map_option (\<lambda>(latest, url). circular_number latest)
             (get_latest_circular_info mail_down_world) = Some ''DOR.2025.02''" by code_simp
  then obtain latest url where 3: "get_latest_circular_info mail_down_world = Some (latest, url)"
    and 4: "circular_number latest = ''DOR.2025.02''" by auto
  have 5: "CHR 0x0D \<notin> set (circular_number latest)" unfolding 4 by simp
  show ?thesis
    using unchanged_circular_short_circuit [of mail_down_world latest url office_fs] 1 3 5
    by simp
qed

text \<open>
  The number of the latest circular is \<open>a\<close>, a carriage return, \<open>b\<close>. The first run
  completes and saves it; the state file is read back with a line feed, so the second
  run, in the same world, resolves, downloads, uploads and notifies again.
\<close>

theorem second_run_carriage_return_counterexample:
  "map_option (\<lambda>(latest, url). circular_number latest) (get_latest_circular_info cr_world)
     = Some cr_number \<and>
   exit (main cr_world office_fs) = Completed \<and>
   files (final_fs (main cr_world office_fs)) LAST_CIRCULAR_FILE = Some cr_number \<and>
   get_last_circular_id (final_fs (main cr_world office_fs))
     = Some [CHR ''a'', CHR 0x0A, CHR ''b''] \<and>
   exit (main cr_world (final_fs (main cr_world office_fs))) = Completed \<and>
   Download_pdf sample_pdf_url \<in> set (calls (main cr_world (final_fs (main cr_world office_fs)))) \<and>
   Send_gmail_api_email True \<in> set (calls (main cr_world (final_fs (main cr_world office_fs))))"
  by code_simp

end
